theory Spec2Isabelle
  imports Complex_Main
begin

section \<open>Python values held by the filter models\<close>

text \<open>
  The row lists of \<open>QInfluenceFilterModel\<close> are ordinary Python lists and tuples, and
  what the checks of the setters let into them matters. \<open>pyval\<close> covers the values that
  occur here: integers, booleans (a subclass of \<open>int\<close> in Python), strings and \<open>None\<close>.
\<close>

datatype pyval = PyInt int | PyBool bool | PyStr string | PyNone

datatype error = TypeError | ValueError | KeyError

text \<open>\<open>isinstance(x, int)\<close>: true of integers and of booleans.\<close>

fun isinstance_int :: "pyval \<Rightarrow> bool" where
  "isinstance_int (PyInt i) = True"
| "isinstance_int (PyBool b) = True"
| "isinstance_int (PyStr s) = False"
| "isinstance_int PyNone = False"

text \<open>The integer a value compares as: \<open>True == 1\<close> and \<open>False == 0\<close>.\<close>

fun int_value :: "pyval \<Rightarrow> int option" where
  "int_value (PyInt i) = Some i"
| "int_value (PyBool b) = Some (if b then 1 else 0)"
| "int_value (PyStr s) = None"
| "int_value PyNone = None"

text \<open>Python's \<open>==\<close> on these values.\<close>

definition py_eq :: "pyval \<Rightarrow> pyval \<Rightarrow> bool" where
  "py_eq x y =
     (case int_value x of
        Some i \<Rightarrow> int_value y = Some i
      | None \<Rightarrow> int_value y = None \<and> x = y)"

text \<open>\<open>x in xs\<close> on a list or tuple.\<close>

definition py_in :: "pyval \<Rightarrow> pyval list \<Rightarrow> bool" where
  "py_in x xs = list_ex (\<lambda>y. py_eq y x) xs"

text \<open>
  \<open>xs.remove(x)\<close>: deletes the first element equal to \<open>x\<close>. Python raises
  \<open>ValueError\<close> when there is none; both calls in the source sit under an
  \<open>x in xs\<close> test, so that branch is never taken and the list is returned as it is.
\<close>

fun py_remove :: "pyval \<Rightarrow> pyval list \<Rightarrow> pyval list" where
  "py_remove x [] = []"
| "py_remove x (y # ys) = (if py_eq y x then ys else y # py_remove x ys)"

section \<open>QInfluenceFilterModel\<close>

text \<open>
  Commands the filter model sends to its view and to the view's selection model.
\<close>

datatype view_cmd = Select "int list" | ScrollTo int | ScrollToTop

text \<open>
  One \<open>QInfluenceFilterModel\<close>. \<open>labels\<close> is column 0 of the source model, one text per
  row (\<open>invalidateInfluences\<close> gives every row an item). \<open>viewSelection\<close> is the selection
  held by the view's selection model, as source rows, and \<open>viewLog\<close> the commands sent to
  the view so far.
\<close>

record filter_model =
  labels :: "string list"
  visible :: "pyval list"
  selectedRows :: "pyval list"
  overrides :: "pyval list"
  autoSelect :: bool
  activeInfluences :: "pyval list"
  inactiveInfluences :: "pyval list"
  viewSelection :: "int list"
  viewLog :: "view_cmd list"

text \<open>
  \<open>isItemNull\<close> on the index of \<open>row\<close> in column 0: an index outside the source model is
  invalid and counts as null, a valid one is null when its text is empty.
\<close>

definition isItemNull :: "filter_model \<Rightarrow> int \<Rightarrow> bool" where
  "isItemNull fm row =
     (if 0 \<le> row \<and> row < int (length (labels fm))
      then labels fm ! nat row = []
      else True)"

definition filterAcceptsRow :: "filter_model \<Rightarrow> int \<Rightarrow> bool \<times> filter_model" where
  "filterAcceptsRow fm row =
     (if isItemNull fm row
      then (False, fm\<lparr>inactiveInfluences := inactiveInfluences fm @ [PyInt row]\<rparr>)
      else if py_in (PyInt row) (visible fm) \<or> py_in (PyInt row) (selectedRows fm)
      then (True, fm\<lparr>activeInfluences := activeInfluences fm @ [PyInt row]\<rparr>)
      else if py_in (PyInt row) (overrides fm)
      then (True, fm\<lparr>activeInfluences := activeInfluences fm @ [PyInt row],
                       overrides := py_remove (PyInt row) (overrides fm)\<rparr>)
      else (False, fm\<lparr>inactiveInfluences := inactiveInfluences fm @ [PyInt row]\<rparr>))"

text \<open>The rows of the source model, \<open>range(rowCount)\<close>.\<close>

definition sourceRows :: "filter_model \<Rightarrow> int list" where
  "sourceRows fm = map int [0..<length (labels fm)]"

text \<open>
  The order in which the inherited \<open>QSortFilterProxyModel.invalidateFilter\<close> presents the
  source rows to \<open>filterAcceptsRow\<close>: first the rows the proxy shows at that time, which
  are the rows the pass before accepted, then the hidden rows, both in source order.
  Every row is presented once.
\<close>

definition passOrder :: "filter_model \<Rightarrow> int list" where
  "passOrder fm =
     filter (\<lambda>row. py_in (PyInt row) (activeInfluences fm)) (sourceRows fm) @
     filter (\<lambda>row. \<not> py_in (PyInt row) (activeInfluences fm)) (sourceRows fm)"

definition filterRows :: "int list \<Rightarrow> filter_model \<Rightarrow> filter_model" where
  "filterRows rows fm = fold (\<lambda>row m. snd (filterAcceptsRow m row)) rows fm"

definition invalidateFilter :: "filter_model \<Rightarrow> filter_model" where
  "invalidateFilter fm =
     filterRows (passOrder fm) (fm\<lparr>activeInfluences := [], inactiveInfluences := []\<rparr>)"

definition setVisible :: "filter_model \<Rightarrow> pyval list \<Rightarrow> error + filter_model" where
  "setVisible fm args =
     (if \<not> list_all isinstance_int args then Inl TypeError
      else Inr (invalidateFilter (fm\<lparr>visible := args\<rparr>)))"

definition setSelectedRows :: "filter_model \<Rightarrow> pyval list \<Rightarrow> filter_model" where
  "setSelectedRows fm rows = fm\<lparr>selectedRows := rows\<rparr>"

definition setOverrides :: "filter_model \<Rightarrow> pyval list \<Rightarrow> error + filter_model" where
  "setOverrides fm args =
     (if \<not> list_all isinstance_int args then Inl TypeError
      else Inr (invalidateFilter (fm\<lparr>overrides := args\<rparr>)))"

definition isRowHidden :: "filter_model \<Rightarrow> pyval \<Rightarrow> bool" where
  "isRowHidden fm row = py_in row (inactiveInfluences fm)"

text \<open>
  The acceptance condition of the specification for one row, read off a filter state:
  the label is not empty and the row is in \<open>visible\<close>, \<open>selectedRows\<close> or \<open>overrides\<close>.
\<close>

definition accepted :: "filter_model \<Rightarrow> int \<Rightarrow> bool" where
  "accepted fm row =
     (\<not> isItemNull fm row \<and>
      (py_in (PyInt row) (visible fm) \<or> py_in (PyInt row) (selectedRows fm)
       \<or> py_in (PyInt row) (overrides fm)))"

text \<open>\<open>xs.count(x)\<close>.\<close>

definition py_count :: "pyval \<Rightarrow> pyval list \<Rightarrow> nat" where
  "py_count x xs = length (filter (\<lambda>y. py_eq y x) xs)"

text \<open>
  The one branch of \<open>filterAcceptsRow\<close> that removes an override: the row is not null,
  is in neither \<open>visible\<close> nor \<open>selectedRows\<close>, and is in \<open>overrides\<close>.
\<close>

definition consumesOverride :: "filter_model \<Rightarrow> int \<Rightarrow> bool" where
  "consumesOverride fm row =
     (\<not> isItemNull fm row \<and> \<not> py_in (PyInt row) (visible fm) \<and>
      \<not> py_in (PyInt row) (selectedRows fm) \<and> py_in (PyInt row) (overrides fm))"

text \<open>
  The filter state of the specification's scenario: six named influences,
  \<open>visible = {0, 2, 4}\<close>, \<open>selectedRows = {2}\<close>, no override yet.
\<close>

definition scenario :: filter_model where
  "scenario =
     \<lparr>labels = [''joint0'', ''joint1'', ''joint2'', ''joint3'', ''joint4'', ''joint5''],
      visible = [PyInt 0, PyInt 2, PyInt 4],
      selectedRows = [PyInt 2],
      overrides = [],
      autoSelect = True,
      activeInfluences = [],
      inactiveInfluences = [],
      viewSelection = [],
      viewLog = []\<rparr>"

section \<open>The window and its two filter models\<close>

text \<open>
  \<open>QVertexBlender.__build__\<close> creates two filter models and makes each the sibling of the
  other.
\<close>

datatype model_id = InfluenceFilterModel | WeightFilterModel

fun siblingModel :: "model_id \<Rightarrow> model_id" where
  "siblingModel InfluenceFilterModel = WeightFilterModel"
| "siblingModel WeightFilterModel = InfluenceFilterModel"

text \<open>
  Dictionaries are association lists in iteration order. \<open>weights\<close> maps influence ids
  to weights; the numbers are only handed on to the skin, never computed with, except for
  the sign change of \<open>incrementWeights\<close> and \<open>scaleWeights\<close>.
\<close>

type_synonym weights = "(int \<times> real) list"

text \<open>Calls received by the skin (\<open>FnSkin\<close>) that change it.\<close>

datatype skin_call = SelectInfluence pyval | ApplyWeights "(int \<times> weights) list"

text \<open>
  What the skin answers while one operation runs: whether it is valid, its soft
  selection, the weights of given vertices, their average, and the three per-vertex
  weight functions, each of which may raise.
\<close>

record skin =
  isValid :: bool
  skin_softSelection :: "(int \<times> real) list"
  skin_weights :: "int list \<Rightarrow> (int \<times> weights) list"
  skin_averageWeights :: "weights list \<Rightarrow> weights"
  skin_setWeights :: "weights \<Rightarrow> pyval \<Rightarrow> pyval list \<Rightarrow> real \<Rightarrow> real \<Rightarrow> error + weights"
  skin_incrementWeights :: "weights \<Rightarrow> pyval \<Rightarrow> pyval list \<Rightarrow> real \<Rightarrow> real \<Rightarrow> error + weights"
  skin_scaleWeights :: "weights \<Rightarrow> pyval \<Rightarrow> pyval list \<Rightarrow> real \<Rightarrow> real \<Rightarrow> error + weights"

text \<open>
  Observations of \<open>matchSelection\<close>: the two flag changes and the call of the sibling's
  \<open>selectInfluences\<close> between them, with the sibling and the rows passed.
\<close>

datatype event = BeginSelectionUpdate | SiblingSelect model_id "pyval list" | EndSelectionUpdate

text \<open>
  The window. \<open>pending\<close> is the class attribute \<open>QInfluenceFilterModel.__pending__\<close>,
  shared by both filter models.
\<close>

record blender =
  pending :: bool
  influenceFilterModel :: filter_model
  weightFilterModel :: filter_model
  skin :: skin
  softSelection :: "(int \<times> real) list"
  vertices :: "(int \<times> weights) list"
  vertexWeights :: weights
  precision :: bool
  setterSpinBox :: real
  incrementSpinBox :: real
  scaleSpinBox :: real
  skinCalls :: "skin_call list"
  trace :: "event list"

datatype outcome = Done blender | Raised error blender

fun state_of :: "outcome \<Rightarrow> blender" where
  "state_of (Done w) = w"
| "state_of (Raised e w) = w"

fun model :: "model_id \<Rightarrow> blender \<Rightarrow> filter_model" where
  "model InfluenceFilterModel w = influenceFilterModel w"
| "model WeightFilterModel w = weightFilterModel w"

fun setModel :: "model_id \<Rightarrow> filter_model \<Rightarrow> blender \<Rightarrow> blender" where
  "setModel InfluenceFilterModel fm w = w\<lparr>influenceFilterModel := fm\<rparr>"
| "setModel WeightFilterModel fm w = w\<lparr>weightFilterModel := fm\<rparr>"

definition isPending :: "blender \<Rightarrow> bool" where
  "isPending w = pending w"

definition beginSelectionUpdate :: "blender \<Rightarrow> blender" where
  "beginSelectionUpdate w = w\<lparr>pending := True, trace := trace w @ [BeginSelectionUpdate]\<rparr>"

definition endSelectionUpdate :: "blender \<Rightarrow> blender" where
  "endSelectionUpdate w = w\<lparr>pending := False, trace := trace w @ [EndSelectionUpdate]\<rparr>"

definition activeInfluence :: "blender \<Rightarrow> error + pyval" where
  "activeInfluence w =
     (case selectedRows (influenceFilterModel w) of
        [] \<Rightarrow> Inl TypeError
      | r # rest \<Rightarrow> Inr r)"

text \<open>
  \<open>requestInfluenceChange\<close>, under the \<open>validate\<close> wrapper: nothing happens when the skin
  is not valid.
\<close>

definition requestInfluenceChange :: "blender \<Rightarrow> outcome" where
  "requestInfluenceChange w =
     (if \<not> isValid (skin w) then Done w
      else case activeInfluence w of
             Inl e \<Rightarrow> Raised e w
           | Inr a \<Rightarrow> Done (w\<lparr>skinCalls := skinCalls w @ [SelectInfluence a]\<rparr>))"

section \<open>Selection and its synchronisation\<close>

text \<open>
  The view and its selection model belong to Qt; the state keeps of them what the filter
  model reads and writes.
  \<^item> \<open>getSelectedRows\<close> reads the view's selection as source rows without duplicates
    (\<open>list(set(...))\<close>; the order of a Python set is not specified, here it is
    ascending, as CPython gives it for small row ids).
  \<^item> \<open>mapSelectionFromSource\<close> keeps the rows the proxy shows, which are the rows the last
    filter pass accepted.
  \<^item> \<open>select\<close> is \<open>selectionModel.select(..., ClearAndSelect)\<close>. \<open>__build__\<close> connects the
    selection model's \<open>selectionChanged\<close> signal to \<open>onSelectionChanged\<close> of the same
    filter model; whether the signal is emitted for a change from an old to a new
    selection is the parameter \<open>notify\<close>, so that every result holds for every emission
    policy. An exception raised inside the slot is reported by the binding and does not
    reach the code that called \<open>select\<close>; the state changes made before it remain.
  Here the selection changes only through \<open>select\<close>: that Qt also takes a selected row
  out of the selection when a filter pass hides it is left out.
\<close>

type_synonym notify = "int list \<Rightarrow> int list \<Rightarrow> bool"

definition getSelectedRows :: "filter_model \<Rightarrow> pyval list" where
  "getSelectedRows fm = map PyInt (sort (remdups (viewSelection fm)))"

definition mapSelectionFromSource :: "filter_model \<Rightarrow> int list \<Rightarrow> int list" where
  "mapSelectionFromSource fm rows = filter (\<lambda>r. py_in (PyInt r) (activeInfluences fm)) rows"

definition logSiblingSelect :: "model_id \<Rightarrow> pyval list \<Rightarrow> blender \<Rightarrow> blender" where
  "logSiblingSelect sibling rows w = w\<lparr>trace := trace w @ [SiblingSelect sibling rows]\<rparr>"

text \<open>\<open>scrollTo\<close> and \<open>scrollToTop\<close> on the view of a filter model.\<close>

definition viewCommand :: "model_id \<Rightarrow> view_cmd \<Rightarrow> blender \<Rightarrow> blender" where
  "viewCommand m c w = setModel m ((model m w)\<lparr>viewLog := viewLog (model m w) @ [c]\<rparr>) w"

text \<open>
  \<open>matchSelection\<close>, \<open>selectInfluences\<close> and \<open>onSelectionChanged\<close> call each other through
  the sibling and through the signal. The recursion ends because \<open>matchSelection\<close> does
  nothing while the flag is set, and sets it before it calls the sibling.
\<close>

function matchSelection :: "notify \<Rightarrow> model_id \<Rightarrow> blender \<Rightarrow> outcome"
  and selectInfluences :: "notify \<Rightarrow> model_id \<Rightarrow> pyval list \<Rightarrow> blender \<Rightarrow> outcome"
  and select :: "notify \<Rightarrow> model_id \<Rightarrow> int list \<Rightarrow> blender \<Rightarrow> blender"
  and onSelectionChanged :: "notify \<Rightarrow> model_id \<Rightarrow> blender \<Rightarrow> outcome"
where
  "matchSelection notify m w =
     (if isPending w then Done w
      else case selectInfluences notify (siblingModel m) (selectedRows (model m w))
                  (logSiblingSelect (siblingModel m) (selectedRows (model m w))
                     (beginSelectionUpdate w)) of
             Raised e w' \<Rightarrow> Raised e w'
           | Done w' \<Rightarrow> Done (endSelectionUpdate w'))"
| "selectInfluences notify m rows w =
     (if \<not> list_all isinstance_int rows then Raised TypeError w
      else case (let hidden = filter (isRowHidden (model m w)) rows
                 in if length hidden > 0 then setOverrides (model m w) hidden
                    else Inr (model m w)) of
             Inl e \<Rightarrow> Raised e w
           | Inr fm \<Rightarrow>
               (case rows of
                  row # rest \<Rightarrow>
                    (case int_value row of
                       None \<Rightarrow> Raised TypeError (setModel m fm w)
                     | Some r \<Rightarrow>
                         Done (viewCommand m (ScrollTo r)
                                 (select notify m (List.map_filter int_value rows)
                                    (setModel m fm w))))
                | [] \<Rightarrow>
                    (case activeInfluences fm of
                       active # others \<Rightarrow>
                         (case int_value active of
                            None \<Rightarrow> Raised TypeError (setModel m fm w)
                          | Some r \<Rightarrow>
                              Done (viewCommand m ScrollToTop
                                      (select notify m [r] (setModel m fm w))))
                     | [] \<Rightarrow> Done (setModel m fm w))))"
| "select notify m rows w =
     (let fm = model m w;
          new = mapSelectionFromSource fm rows;
          w1 = setModel m (fm\<lparr>viewSelection := new, viewLog := viewLog fm @ [Select rows]\<rparr>) w
      in if notify (viewSelection fm) new
         then state_of (onSelectionChanged notify m w1)
         else w1)"
| "onSelectionChanged notify m w =
     (let rows = getSelectedRows (model m w)
      in if length rows = 0 then Done w
         else (let w1 = setModel m (invalidateFilter (setSelectedRows (model m w) rows)) w
               in case (if autoSelect (model m w1) then matchSelection notify m w1 else Done w1) of
                    Raised e w2 \<Rightarrow> Raised e w2
                  | Done w2 \<Rightarrow> requestInfluenceChange w2))"
  by pat_completeness auto
termination
proof -
  have pm: "pending (setModel m fm w) = pending w" for m fm w
    by (cases m) simp_all
  show ?thesis
    by (relation "measure (\<lambda>x. case x of
            Inl (Inl (notify, m, w)) \<Rightarrow> (if pending w then 0 else 4)
          | Inl (Inr (notify, m, rows, w)) \<Rightarrow> (if pending w then 0 else 4) + 3
          | Inr (Inl (notify, m, rows, w)) \<Rightarrow> (if pending w then 0 else 4) + 2
          | Inr (Inr (notify, m, w)) \<Rightarrow> (if pending w then 0 else 4) + 1)")
       (auto simp: pm isPending_def logSiblingSelect_def beginSelectionUpdate_def)
qed

declare matchSelection.simps [simp del] selectInfluences.simps [simp del]
  select.simps [simp del] onSelectionChanged.simps [simp del]

definition setAutoSelect :: "notify \<Rightarrow> model_id \<Rightarrow> pyval \<Rightarrow> blender \<Rightarrow> outcome" where
  "setAutoSelect notify m v w =
     (case v of
        PyBool b \<Rightarrow>
          (let w1 = setModel m ((model m w)\<lparr>autoSelect := b\<rparr>) w
           in if b then matchSelection notify m w1 else Done w1)
      | PyInt i \<Rightarrow> Raised TypeError w
      | PyStr s \<Rightarrow> Raised TypeError w
      | PyNone \<Rightarrow> Raised TypeError w)"

fun raised :: "outcome \<Rightarrow> bool" where
  "raised (Done w) = False"
| "raised (Raised e w) = True"

text \<open>
  Reading a trace: the events a run added, how many of them are calls of a sibling's
  \<open>selectInfluences\<close>, and the largest number of synchronisations that were between
  their \<open>beginSelectionUpdate\<close> and \<open>endSelectionUpdate\<close> at one time, counting from a
  given number.
\<close>

definition newEvents :: "blender \<Rightarrow> blender \<Rightarrow> event list" where
  "newEvents w w' = drop (length (trace w)) (trace w')"

fun siblingSelects :: "event list \<Rightarrow> nat" where
  "siblingSelects [] = 0"
| "siblingSelects (SiblingSelect m rows # es) = Suc (siblingSelects es)"
| "siblingSelects (BeginSelectionUpdate # es) = siblingSelects es"
| "siblingSelects (EndSelectionUpdate # es) = siblingSelects es"

fun maxInFlight :: "nat \<Rightarrow> event list \<Rightarrow> nat" where
  "maxInFlight d [] = d"
| "maxInFlight d (BeginSelectionUpdate # es) = max d (maxInFlight (Suc d) es)"
| "maxInFlight d (EndSelectionUpdate # es) = max d (maxInFlight (d - 1) es)"
| "maxInFlight d (SiblingSelect m rows # es) = maxInFlight d es"

section \<open>Source influences and batch weight edits\<close>

text \<open>
  \<open>sourceInfluences\<close>. In precision mode \<open>influenceIds\<close> is the very list object that the
  weight filter model caches as \<open>_selectedRows\<close> (\<open>selectedRows()\<close> returns it, not a
  copy), so \<open>influenceIds.remove\<close> changes that cache too: the function returns the rows
  together with the window as it leaves it. The other branch builds a new list.
\<close>

definition sourceInfluences :: "blender \<Rightarrow> error + (pyval list \<times> blender)" where
  "sourceInfluences w =
     (let selected = selectedRows (weightFilterModel w) in
      if length selected = 0 then Inl TypeError
      else if precision w then
        (case activeInfluence w of
           Inl e \<Rightarrow> Inl e
         | Inr a \<Rightarrow>
             if py_in a selected
             then (let influenceIds = py_remove a selected
                   in Inr (influenceIds,
                           w\<lparr>weightFilterModel :=
                                (weightFilterModel w)\<lparr>selectedRows := influenceIds\<rparr>\<rparr>))
             else Inr (selected, w))
      else Inr (filter (\<lambda>x. \<not> py_in x selected) (activeInfluences (weightFilterModel w)), w))"

text \<open>The \<open>validate\<close> wrapper: the wrapped method runs only on a valid skin.\<close>

definition validate :: "(blender \<Rightarrow> outcome) \<Rightarrow> blender \<Rightarrow> outcome" where
  "validate func w = (if isValid (skin w) then func w else Done w)"

text \<open>\<open>d[k] = v\<close> on a dictionary.\<close>

fun dict_set :: "int \<Rightarrow> 'v \<Rightarrow> (int \<times> 'v) list \<Rightarrow> (int \<times> 'v) list" where
  "dict_set k v [] = [(k, v)]"
| "dict_set k v ((k', v') # d) = (if k' = k then (k, v) # d else (k', v') # dict_set k v d)"

text \<open>
  \<open>invalidateWeights\<close>: reads the soft selection and the weights back from the skin and
  shows the influences that carry weight. The texts it writes into column 1 of the weight
  model are not part of the state.
\<close>

definition invalidateWeights :: "blender \<Rightarrow> outcome" where
  "invalidateWeights =
     validate (\<lambda>w.
       let soft = skin_softSelection (skin w);
           selection = map fst soft;
           verts = skin_weights (skin w) selection;
           w1 = w\<lparr>softSelection := soft, vertices := verts\<rparr>
       in case (case selection of
                  [] \<Rightarrow> Inr []
                | [v] \<Rightarrow> (case map_of verts v of None \<Rightarrow> Inl KeyError | Some x \<Rightarrow> Inr x)
                | v # v' # rest \<Rightarrow> Inr (skin_averageWeights (skin w) (map snd verts))) of
            Inl e \<Rightarrow> Raised e w1
          | Inr vw \<Rightarrow>
              (let w2 = w1\<lparr>vertexWeights := vw\<rparr>
               in if length vw > 0
                  then (case setVisible (weightFilterModel w2) (map (\<lambda>kv. PyInt (fst kv)) vw) of
                          Inl e \<Rightarrow> Raised e w2
                        | Inr fm \<Rightarrow> Done (w2\<lparr>weightFilterModel := fm\<rparr>))
                  else Done w2))"

text \<open>
  The loop over \<open>self._softSelection.items()\<close>: each vertex's existing weights are looked
  up in \<open>self._vertices\<close> (\<open>KeyError\<close> when absent), the skin function is applied, and
  the result is stored under the vertex. The first exception ends the loop.
\<close>

fun collectUpdates ::
  "(weights \<Rightarrow> pyval \<Rightarrow> pyval list \<Rightarrow> real \<Rightarrow> real \<Rightarrow> error + weights) \<Rightarrow> (int \<times> weights) list \<Rightarrow>
   pyval \<Rightarrow> pyval list \<Rightarrow> real \<Rightarrow> (int \<times> real) list \<Rightarrow> (int \<times> weights) list \<Rightarrow>
   error + (int \<times> weights) list" where
  "collectUpdates f verts a srcs amount [] updates = Inr updates"
| "collectUpdates f verts a srcs amount ((vertexIndex, falloff) # rest) updates =
     (case map_of verts vertexIndex of
        None \<Rightarrow> Inl KeyError
      | Some existing \<Rightarrow>
          (case f existing a srcs amount falloff of
             Inl e \<Rightarrow> Inl e
           | Inr new \<Rightarrow> collectUpdates f verts a srcs amount rest (dict_set vertexIndex new updates)))"

text \<open>
  The body shared by \<open>applyPreset\<close>, \<open>setWeights\<close>, \<open>incrementWeights\<close> and
  \<open>scaleWeights\<close>, which differ only in the skin function and in the amount.
\<close>

definition batchEdit ::
  "(weights \<Rightarrow> pyval \<Rightarrow> pyval list \<Rightarrow> real \<Rightarrow> real \<Rightarrow> error + weights) \<Rightarrow> real \<Rightarrow> blender \<Rightarrow> outcome" where
  "batchEdit f amount w =
     (case activeInfluence w of
        Inl e \<Rightarrow> Raised e w
      | Inr a \<Rightarrow>
          (case sourceInfluences w of
             Inl e \<Rightarrow> Raised e w
           | Inr (srcs, w1) \<Rightarrow>
               (case collectUpdates f (vertices w1) a srcs amount (softSelection w1) [] of
                  Inl e \<Rightarrow> Raised e w1
                | Inr updates \<Rightarrow>
                    invalidateWeights (w1\<lparr>skinCalls := skinCalls w1 @ [ApplyWeights updates]\<rparr>))))"

definition applyPreset :: "real \<Rightarrow> blender \<Rightarrow> outcome" where
  "applyPreset amount w = validate (batchEdit (skin_setWeights (skin w)) amount) w"

definition setWeights :: "blender \<Rightarrow> outcome" where
  "setWeights w = validate (batchEdit (skin_setWeights (skin w)) (setterSpinBox w)) w"

definition incrementWeights :: "bool \<Rightarrow> blender \<Rightarrow> outcome" where
  "incrementWeights pull w =
     validate (batchEdit (skin_incrementWeights (skin w))
                 (if pull then incrementSpinBox w * (- 1) else incrementSpinBox w)) w"

definition scaleWeights :: "bool \<Rightarrow> blender \<Rightarrow> outcome" where
  "scaleWeights pull w =
     validate (batchEdit (skin_scaleWeights (skin w))
                 (if pull then scaleSpinBox w * (- 1) else scaleSpinBox w)) w"

text \<open>The four batch edits under one name, with the skin function and amount of each.\<close>

datatype batch_op = ApplyPreset real | SetWeights | IncrementWeights bool | ScaleWeights bool

fun runBatch :: "batch_op \<Rightarrow> blender \<Rightarrow> outcome" where
  "runBatch (ApplyPreset amount) w = applyPreset amount w"
| "runBatch SetWeights w = setWeights w"
| "runBatch (IncrementWeights pull) w = incrementWeights pull w"
| "runBatch (ScaleWeights pull) w = scaleWeights pull w"

fun skinFunction ::
  "batch_op \<Rightarrow> blender \<Rightarrow> weights \<Rightarrow> pyval \<Rightarrow> pyval list \<Rightarrow> real \<Rightarrow> real \<Rightarrow> error + weights" where
  "skinFunction (ApplyPreset amount) w = skin_setWeights (skin w)"
| "skinFunction SetWeights w = skin_setWeights (skin w)"
| "skinFunction (IncrementWeights pull) w = skin_incrementWeights (skin w)"
| "skinFunction (ScaleWeights pull) w = skin_scaleWeights (skin w)"

fun amountOf :: "batch_op \<Rightarrow> blender \<Rightarrow> real" where
  "amountOf (ApplyPreset amount) w = amount"
| "amountOf SetWeights w = setterSpinBox w"
| "amountOf (IncrementWeights pull) w = (if pull then - incrementSpinBox w else incrementSpinBox w)"
| "amountOf (ScaleWeights pull) w = (if pull then - scaleSpinBox w else scaleSpinBox w)"

text \<open>
  What the update of one soft-selected vertex computes to, the new weights or the
  exception raised for that vertex, and the list of these for a batch edit, in the order
  of the soft selection.
\<close>

definition vertexResult ::
  "(weights \<Rightarrow> pyval \<Rightarrow> pyval list \<Rightarrow> real \<Rightarrow> real \<Rightarrow> error + weights) \<Rightarrow> (int \<times> weights) list \<Rightarrow>
   pyval \<Rightarrow> pyval list \<Rightarrow> real \<Rightarrow> int \<times> real \<Rightarrow> error + weights" where
  "vertexResult f verts a srcs amount vf =
     (case map_of verts (fst vf) of
        None \<Rightarrow> Inl KeyError
      | Some existing \<Rightarrow> f existing a srcs amount (snd vf))"

definition perVertex :: "batch_op \<Rightarrow> blender \<Rightarrow> pyval \<Rightarrow> pyval list \<Rightarrow> (error + weights) list" where
  "perVertex op w a srcs =
     map (vertexResult (skinFunction op w) (vertices w) a srcs (amountOf op w)) (softSelection w)"

section \<open>Pattern matching\<close>














text \<open>
  The match of the specification, in its own words: \<open>*\<close> matches any run of characters,
  \<open>?\<close> a single character, every other character itself, case-sensitively, and the
  pattern has to cover the whole label.
\<close>

fun spec_match :: "string \<Rightarrow> string \<Rightarrow> bool" where
  "spec_match label [] = (label = [])"
| "spec_match label (p # pattern) =
     (if p = CHR ''*'' then list_ex (\<lambda>k. spec_match (drop k label) pattern) [0..<Suc (length label)]
      else if p = CHR ''?'' then (case label of [] \<Rightarrow> False | c # rest \<Rightarrow> spec_match rest pattern)
      else (case label of [] \<Rightarrow> False | c # rest \<Rightarrow> c = p \<and> spec_match rest pattern))"


section \<open>Example states\<close>

text \<open>
  A filter model as \<open>__init__\<close> leaves it, over a source model with the given labels; a
  skin whose weight functions raise \<open>ValueError\<close> on a vertex without weights; and the
  window built from them.
\<close>

definition newModel :: "string list \<Rightarrow> filter_model" where
  "newModel ls =
     \<lparr>labels = ls, visible = [], selectedRows = [], overrides = [], autoSelect = True,
      activeInfluences = [], inactiveInfluences = [], viewSelection = [], viewLog = []\<rparr>"

definition exampleSkin :: skin where
  "exampleSkin =
     \<lparr>isValid = True,
      skin_softSelection = [],
      skin_weights = (\<lambda>vs. []),
      skin_averageWeights = (\<lambda>ws. []),
      skin_setWeights =
        (\<lambda>existing a srcs amount falloff.
           if existing = [] then Inl ValueError else Inr [(0, amount * falloff)]),
      skin_incrementWeights =
        (\<lambda>existing a srcs amount falloff.
           if existing = [] then Inl ValueError else Inr [(0, amount * falloff)]),
      skin_scaleWeights =
        (\<lambda>existing a srcs amount falloff.
           if existing = [] then Inl ValueError else Inr [(0, amount * falloff)])\<rparr>"

definition newWindow :: blender where
  "newWindow =
     \<lparr>pending = False,
      influenceFilterModel = newModel [''joint0'', ''joint1'', ''joint2'', ''joint3''],
      weightFilterModel = newModel [''joint0'', ''joint1'', ''joint2'', ''joint3''],
      skin = exampleSkin,
      softSelection = [],
      vertices = [],
      vertexWeights = [],
      precision = False,
      setterSpinBox = 1,
      incrementSpinBox = 1,
      scaleSpinBox = 1,
      skinCalls = [],
      trace = []\<rparr>"

text \<open>
  The two \<open>sourceInfluences\<close> scenarios of the specification. Single-select mode: the
  weight list shows rows 0 to 3 and row 1 is selected. Precision mode: rows 0 and 1 are
  selected in the weight list and row 1 is the active influence.
\<close>

definition singleSelectWindow :: blender where
  "singleSelectWindow =
     newWindow\<lparr>precision := False,
               influenceFilterModel := (influenceFilterModel newWindow)\<lparr>selectedRows := [PyInt 1]\<rparr>,
               weightFilterModel := (weightFilterModel newWindow)
                 \<lparr>selectedRows := [PyInt 1],
                  activeInfluences := [PyInt 0, PyInt 1, PyInt 2, PyInt 3]\<rparr>\<rparr>"

definition precisionWindow :: blender where
  "precisionWindow =
     newWindow\<lparr>precision := True,
               influenceFilterModel := (influenceFilterModel newWindow)\<lparr>selectedRows := [PyInt 1]\<rparr>,
               weightFilterModel := (weightFilterModel newWindow)
                 \<lparr>selectedRows := [PyInt 0, PyInt 1],
                  activeInfluences := [PyInt 0, PyInt 1]\<rparr>\<rparr>"

text \<open>
  A soft selection of three vertices for the batch edits, over given stored weights.
\<close>

definition batchWindow :: "(int \<times> weights) list \<Rightarrow> blender" where
  "batchWindow verts =
     singleSelectWindow\<lparr>softSelection := [(10, 1), (11, 1 / 2), (12, 1)], vertices := verts\<rparr>"

text \<open>
  A window in which row 1 is selected and cached in the influence list and hidden in
  the weight list, and the same window after \<open>setSelectedRows\<close> stored a string in the
  influence list's cache.
\<close>

definition syncWindow :: blender where
  "syncWindow =
     newWindow
       \<lparr>influenceFilterModel := (influenceFilterModel newWindow)
          \<lparr>visible := [PyInt 0, PyInt 1], selectedRows := [PyInt 1],
           activeInfluences := [PyInt 0, PyInt 1], inactiveInfluences := [PyInt 2, PyInt 3]\<rparr>,
        weightFilterModel := (weightFilterModel newWindow)
          \<lparr>visible := [PyInt 0],
           activeInfluences := [PyInt 0], inactiveInfluences := [PyInt 1, PyInt 2, PyInt 3]\<rparr>\<rparr>"

definition brokenWindow :: blender where
  "brokenWindow =
     syncWindow\<lparr>influenceFilterModel :=
       setSelectedRows (influenceFilterModel syncWindow) [PyStr ''joint1'']\<rparr>"

section \<open>Calls on the window\<close>

text \<open>
  What can happen to the window after a synchronisation: a call of a method of one of the
  filter models, a selection made by the user in one of the views, a batch edit or an
  invalidation of the weights. \<open>apiCall\<close> gives the state such a call leaves, whether it
  returns or raises. \<open>beginSelectionUpdate\<close> and \<open>endSelectionUpdate\<close> are not among
  them: only \<open>matchSelection\<close> calls them.
\<close>

datatype api_call =
    SetVisible model_id "pyval list"
  | SetOverrides model_id "pyval list"
  | SetSelectedRows model_id "pyval list"
  | SetAutoSelect model_id pyval
  | MatchSelection model_id
  | SelectInfluences model_id "pyval list"
  | OnSelectionChanged model_id
  | UserSelects model_id "int list"
  | BatchEdit batch_op
  | InvalidateWeights

definition storeModel :: "model_id \<Rightarrow> error + filter_model \<Rightarrow> blender \<Rightarrow> blender" where
  "storeModel m result w = (case result of Inl e \<Rightarrow> w | Inr fm \<Rightarrow> setModel m fm w)"

fun apiCall :: "notify \<Rightarrow> api_call \<Rightarrow> blender \<Rightarrow> blender" where
  "apiCall notify (SetVisible m args) w = storeModel m (setVisible (model m w) args) w"
| "apiCall notify (SetOverrides m args) w = storeModel m (setOverrides (model m w) args) w"
| "apiCall notify (SetSelectedRows m rows) w = setModel m (setSelectedRows (model m w) rows) w"
| "apiCall notify (SetAutoSelect m v) w = state_of (setAutoSelect notify m v w)"
| "apiCall notify (MatchSelection m) w = state_of (matchSelection notify m w)"
| "apiCall notify (SelectInfluences m rows) w = state_of (selectInfluences notify m rows w)"
| "apiCall notify (OnSelectionChanged m) w = state_of (onSelectionChanged notify m w)"
| "apiCall notify (UserSelects m rows) w = select notify m rows w"
| "apiCall notify (BatchEdit op) w = state_of (runBatch op w)"
| "apiCall notify InvalidateWeights w = state_of (invalidateWeights w)"

section \<open>Properties of the filter pass\<close>

lemma py_eq_PyInt_left [simp]: "py_eq (PyInt i) y = (int_value y = Some i)"
  by (simp add: py_eq_def)

lemma py_eq_PyInt_right [simp]: "py_eq x (PyInt j) = (int_value x = Some j)"
  by (cases x) (auto simp: py_eq_def)

lemma py_in_remove_other:
  "r' \<noteq> r \<Longrightarrow> py_in (PyInt r') (py_remove (PyInt r) xs) = py_in (PyInt r') xs"
  by (induction xs) (auto simp: py_in_def)

lemma filterAcceptsRow_fst: "fst (filterAcceptsRow fm row) = accepted fm row"
  by (simp add: filterAcceptsRow_def accepted_def)

lemma filterAcceptsRow_active:
  "activeInfluences (snd (filterAcceptsRow fm row)) =
     activeInfluences fm @ (if accepted fm row then [PyInt row] else [])"
  by (simp add: filterAcceptsRow_def accepted_def)

lemma filterAcceptsRow_inactive:
  "inactiveInfluences (snd (filterAcceptsRow fm row)) =
     inactiveInfluences fm @ (if accepted fm row then [] else [PyInt row])"
  by (simp add: filterAcceptsRow_def accepted_def)

lemma filterAcceptsRow_frame:
  "labels (snd (filterAcceptsRow fm row)) = labels fm"
  "visible (snd (filterAcceptsRow fm row)) = visible fm"
  "selectedRows (snd (filterAcceptsRow fm row)) = selectedRows fm"
  "autoSelect (snd (filterAcceptsRow fm row)) = autoSelect fm"
  "viewSelection (snd (filterAcceptsRow fm row)) = viewSelection fm"
  "viewLog (snd (filterAcceptsRow fm row)) = viewLog fm"
  by (simp_all add: filterAcceptsRow_def)

lemma filterAcceptsRow_isItemNull:
  "isItemNull (snd (filterAcceptsRow fm row)) r' = isItemNull fm r'"
  by (simp add: isItemNull_def filterAcceptsRow_frame)

lemma filterAcceptsRow_overrides_other:
  "r' \<noteq> row \<Longrightarrow>
     py_in (PyInt r') (overrides (snd (filterAcceptsRow fm row))) = py_in (PyInt r') (overrides fm)"
  by (simp add: filterAcceptsRow_def py_in_remove_other)

lemma accepted_after_other:
  "r' \<noteq> row \<Longrightarrow> accepted (snd (filterAcceptsRow fm row)) r' = accepted fm r'"
  by (simp add: accepted_def filterAcceptsRow_isItemNull filterAcceptsRow_overrides_other
      filterAcceptsRow_frame)

lemma filterRows_active:
  "distinct rows \<Longrightarrow>
     activeInfluences (filterRows rows fm) =
       activeInfluences fm @ map PyInt (filter (accepted fm) rows)"
proof (induction rows arbitrary: fm)
  case Nil
  then show ?case by (simp add: filterRows_def)
next
  case (Cons r rows)
  have same: "filter (accepted (snd (filterAcceptsRow fm r))) rows = filter (accepted fm) rows"
  proof (rule filter_cong [OF refl])
    fix x assume "x \<in> set rows"
    with Cons.prems have "x \<noteq> r" by auto
    then show "accepted (snd (filterAcceptsRow fm r)) x = accepted fm x" by (simp add: accepted_after_other)
  qed
  have "filterRows (r # rows) fm = filterRows rows (snd (filterAcceptsRow fm r))"
    by (simp add: filterRows_def)
  then show ?case
    using Cons.IH [of "snd (filterAcceptsRow fm r)"] Cons.prems same
    by (simp add: filterAcceptsRow_active)
qed

lemma filterRows_inactive:
  "distinct rows \<Longrightarrow>
     inactiveInfluences (filterRows rows fm) =
       inactiveInfluences fm @ map PyInt (filter (\<lambda>r. \<not> accepted fm r) rows)"
proof (induction rows arbitrary: fm)
  case Nil
  then show ?case by (simp add: filterRows_def)
next
  case (Cons r rows)
  have same: "filter (\<lambda>x. \<not> accepted (snd (filterAcceptsRow fm r)) x) rows
                = filter (\<lambda>x. \<not> accepted fm x) rows"
  proof (rule filter_cong [OF refl])
    fix x assume "x \<in> set rows"
    with Cons.prems have "x \<noteq> r" by auto
    then show "(\<not> accepted (snd (filterAcceptsRow fm r)) x) = (\<not> accepted fm x)" by (simp add: accepted_after_other)
  qed
  have "filterRows (r # rows) fm = filterRows rows (snd (filterAcceptsRow fm r))"
    by (simp add: filterRows_def)
  then show ?case
    using Cons.IH [of "snd (filterAcceptsRow fm r)"] Cons.prems same
    by (simp add: filterAcceptsRow_inactive)
qed

lemma distinct_sourceRows: "distinct (sourceRows fm)"
  by (simp add: sourceRows_def distinct_map inj_on_def)

lemma distinct_passOrder: "distinct (passOrder fm)"
  by (auto simp: passOrder_def distinct_sourceRows)

lemma set_passOrder: "set (passOrder fm) = set (sourceRows fm)"
  by (auto simp: passOrder_def)

lemma passOrder_reset:
  "filterRows (passOrder fm) (fm\<lparr>activeInfluences := [], inactiveInfluences := []\<rparr>)
     = invalidateFilter fm"
  by (simp add: invalidateFilter_def)

lemma accepted_reset:
  "accepted (fm\<lparr>activeInfluences := a, inactiveInfluences := b\<rparr>) = accepted fm"
  by (rule ext) (simp add: accepted_def isItemNull_def)

lemma py_in_count: "py_in x xs = (0 < py_count x xs)"
  by (induction xs) (auto simp: py_in_def py_count_def)

lemma py_count_remove_same:
  "py_count x (py_remove x xs) = py_count x xs - 1"
  by (induction xs) (auto simp: py_count_def)

lemma py_count_remove_other:
  "r' \<noteq> r \<Longrightarrow> py_count (PyInt r') (py_remove (PyInt r) xs) = py_count (PyInt r') xs"
  by (induction xs) (auto simp: py_count_def)

lemma filterAcceptsRow_overrides_count:
  "py_count (PyInt r) (overrides (snd (filterAcceptsRow fm row))) =
     py_count (PyInt r) (overrides fm) - (if r = row \<and> consumesOverride fm row then 1 else 0)"
  by (simp add: filterAcceptsRow_def consumesOverride_def py_count_remove_same
      py_count_remove_other)

lemma consumesOverride_after_other:
  "r' \<noteq> row \<Longrightarrow> consumesOverride (snd (filterAcceptsRow fm row)) r' = consumesOverride fm r'"
  by (simp add: consumesOverride_def filterAcceptsRow_isItemNull
      filterAcceptsRow_overrides_other filterAcceptsRow_frame)

lemma filterRows_overrides_count:
  "distinct rows \<Longrightarrow>
     py_count (PyInt r) (overrides (filterRows rows fm)) =
       py_count (PyInt r) (overrides fm) -
         (if r \<in> set rows \<and> consumesOverride fm r then 1 else 0)"
proof (induction rows arbitrary: fm)
  case Nil
  then show ?case by (simp add: filterRows_def)
next
  case (Cons a rows)
  let ?fm1 = "snd (filterAcceptsRow fm a)"
  have step: "filterRows (a # rows) fm = filterRows rows ?fm1"
    by (simp add: filterRows_def)
  have ih: "py_count (PyInt r) (overrides (filterRows rows ?fm1)) =
      py_count (PyInt r) (overrides ?fm1) -
        (if r \<in> set rows \<and> consumesOverride ?fm1 r then 1 else 0)"
    using Cons.IH [of ?fm1] Cons.prems by simp
  show ?case
  proof (cases "r = a")
    case True
    with Cons.prems have "r \<notin> set rows" by simp
    with True ih step show ?thesis
      by (simp add: filterAcceptsRow_overrides_count)
  next
    case False
    with ih step show ?thesis
      by (simp add: filterAcceptsRow_overrides_count consumesOverride_after_other)
  qed
qed

lemma filterRows_frame:
  "labels (filterRows rows fm) = labels fm"
  "visible (filterRows rows fm) = visible fm"
  "selectedRows (filterRows rows fm) = selectedRows fm"
  "autoSelect (filterRows rows fm) = autoSelect fm"
  "viewSelection (filterRows rows fm) = viewSelection fm"
  "viewLog (filterRows rows fm) = viewLog fm"
  by (induction rows arbitrary: fm; simp add: filterRows_def filterAcceptsRow_frame)+

lemma invalidateFilter_frame:
  "labels (invalidateFilter fm) = labels fm"
  "visible (invalidateFilter fm) = visible fm"
  "selectedRows (invalidateFilter fm) = selectedRows fm"
  "autoSelect (invalidateFilter fm) = autoSelect fm"
  "viewSelection (invalidateFilter fm) = viewSelection fm"
  "viewLog (invalidateFilter fm) = viewLog fm"
  by (simp_all add: invalidateFilter_def filterRows_frame)

lemma consumesOverride_reset:
  "consumesOverride (fm\<lparr>activeInfluences := a, inactiveInfluences := b\<rparr>) r
     = consumesOverride fm r"
  by (simp add: consumesOverride_def isItemNull_def)

lemma invalidateFilter_overrides_count:
  "py_count (PyInt r) (overrides (invalidateFilter fm)) =
     py_count (PyInt r) (overrides fm) -
       (if r \<in> set (sourceRows fm) \<and> consumesOverride fm r then 1 else 0)"
proof -
  let ?fm0 = "fm\<lparr>activeInfluences := [], inactiveInfluences := []\<rparr>"
  have "py_count (PyInt r) (overrides (filterRows (passOrder fm) ?fm0)) =
     py_count (PyInt r) (overrides ?fm0) -
       (if r \<in> set (passOrder fm) \<and> consumesOverride ?fm0 r then 1 else 0)"
    by (rule filterRows_overrides_count [OF distinct_passOrder])
  then show ?thesis
    by (simp only: passOrder_reset consumesOverride_reset set_passOrder) simp
qed

lemma scenario_pass:
  "setOverrides scenario [PyInt 4] =
     Inr (scenario\<lparr>overrides := [PyInt 4],
                   activeInfluences := [PyInt 0, PyInt 2, PyInt 4],
                   inactiveInfluences := [PyInt 1, PyInt 3, PyInt 5]\<rparr>)"
  by (simp add: setOverrides_def invalidateFilter_def filterRows_def passOrder_def sourceRows_def
      scenario_def filterAcceptsRow_def isItemNull_def py_in_def upt_rec [of 0])

text \<open>
  Claim C1. \<open>filterAcceptsRow\<close> accepts a row exactly when its label is not empty and the
  row is in \<open>visible\<close>, \<open>selectedRows\<close> or \<open>overrides\<close>; an accepted row is appended to
  \<open>activeInfluences\<close> and a rejected one, null rows included, to \<open>inactiveInfluences\<close>.
  Over one full pass, in whatever order the rows are presented once each, the two lists
  are the accepted and the rejected rows in that order, judged on the state the pass
  started from. \<open>invalidateFilter\<close> is such a pass over all source rows: afterwards
  \<open>activeInfluences\<close> holds exactly the accepted source rows and \<open>inactiveInfluences\<close>
  exactly the rejected ones.
\<close>

theorem filter_pass_partition:
  "fst (filterAcceptsRow fm row) = accepted fm row \<and>
   activeInfluences (snd (filterAcceptsRow fm row)) =
     activeInfluences fm @ (if accepted fm row then [PyInt row] else []) \<and>
   inactiveInfluences (snd (filterAcceptsRow fm row)) =
     inactiveInfluences fm @ (if accepted fm row then [] else [PyInt row]) \<and>
   (distinct rows \<longrightarrow>
      activeInfluences
        (filterRows rows (fm\<lparr>activeInfluences := [], inactiveInfluences := []\<rparr>)) =
        map PyInt (filter (accepted fm) rows) \<and>
      inactiveInfluences
        (filterRows rows (fm\<lparr>activeInfluences := [], inactiveInfluences := []\<rparr>)) =
        map PyInt (filter (\<lambda>r. \<not> accepted fm r) rows)) \<and>
   activeInfluences (invalidateFilter fm) = map PyInt (filter (accepted fm) (passOrder fm)) \<and>
   inactiveInfluences (invalidateFilter fm) =
     map PyInt (filter (\<lambda>r. \<not> accepted fm r) (passOrder fm)) \<and>
   distinct (passOrder fm) \<and> set (passOrder fm) = set (sourceRows fm) \<and>
   set (activeInfluences (invalidateFilter fm)) =
     PyInt ` {r \<in> set (sourceRows fm). accepted fm r} \<and>
   set (inactiveInfluences (invalidateFilter fm)) =
     PyInt ` {r \<in> set (sourceRows fm). \<not> accepted fm r}"
proof -
  have pass: "activeInfluences
        (filterRows rs (fm\<lparr>activeInfluences := [], inactiveInfluences := []\<rparr>)) =
        map PyInt (filter (accepted fm) rs) \<and>
      inactiveInfluences
        (filterRows rs (fm\<lparr>activeInfluences := [], inactiveInfluences := []\<rparr>)) =
        map PyInt (filter (\<lambda>r. \<not> accepted fm r) rs)" if "distinct rs" for rs
    using that by (simp add: filterRows_active filterRows_inactive accepted_reset)
  have inv: "activeInfluences (invalidateFilter fm) = map PyInt (filter (accepted fm) (passOrder fm))"
    "inactiveInfluences (invalidateFilter fm) =
       map PyInt (filter (\<lambda>r. \<not> accepted fm r) (passOrder fm))"
    using pass [OF distinct_passOrder [of fm]] by (simp_all add: passOrder_reset)
  have sets: "set (activeInfluences (invalidateFilter fm)) =
       PyInt ` {r \<in> set (sourceRows fm). accepted fm r}"
    "set (inactiveInfluences (invalidateFilter fm)) =
       PyInt ` {r \<in> set (sourceRows fm). \<not> accepted fm r}"
    unfolding inv by (auto simp: set_passOrder)
  show ?thesis
    using pass [of rows] inv sets
    by (simp add: filterAcceptsRow_fst filterAcceptsRow_active filterAcceptsRow_inactive
        distinct_passOrder set_passOrder)
qed

text \<open>
  An instance. Rows 0 and 4 are shown when the pass starts, so they are presented first:
  row 2 has an empty label and is rejected although it is visible and selected, row 3 is
  accepted through its override and comes last. A pass in descending order gives the
  same rows in descending order.
\<close>

theorem filter_pass_partition_witness:
  "fst (filterAcceptsRow
          (scenario\<lparr>labels := [''a'', ''b'', [], ''d'', ''e''], overrides := [PyInt 3],
                    activeInfluences := [PyInt 0, PyInt 4],
                    inactiveInfluences := [PyInt 1, PyInt 2, PyInt 3]\<rparr>) 2) = False \<and>
   activeInfluences (invalidateFilter
          (scenario\<lparr>labels := [''a'', ''b'', [], ''d'', ''e''], overrides := [PyInt 3],
                    activeInfluences := [PyInt 0, PyInt 4],
                    inactiveInfluences := [PyInt 1, PyInt 2, PyInt 3]\<rparr>))
     = [PyInt 0, PyInt 4, PyInt 3] \<and>
   inactiveInfluences (invalidateFilter
          (scenario\<lparr>labels := [''a'', ''b'', [], ''d'', ''e''], overrides := [PyInt 3],
                    activeInfluences := [PyInt 0, PyInt 4],
                    inactiveInfluences := [PyInt 1, PyInt 2, PyInt 3]\<rparr>))
     = [PyInt 1, PyInt 2] \<and>
   activeInfluences (filterRows [4, 3, 2, 1, 0]
          (scenario\<lparr>labels := [''a'', ''b'', [], ''d'', ''e''], overrides := [PyInt 3],
                    activeInfluences := [], inactiveInfluences := []\<rparr>))
     = [PyInt 4, PyInt 3, PyInt 0]"
proof -
  let ?fm = "scenario\<lparr>labels := [''a'', ''b'', [], ''d'', ''e''], overrides := [PyInt 3],
                    activeInfluences := [PyInt 0, PyInt 4],
                    inactiveInfluences := [PyInt 1, PyInt 2, PyInt 3]\<rparr>"
  have d: "distinct [4, 3, 2, 1, 0 :: int]" by simp
  have po: "passOrder ?fm = [0, 4, 1, 2, 3]"
    by (simp add: passOrder_def sourceRows_def py_in_def scenario_def upt_rec [of 0])
  have acc: "accepted ?fm 0" "\<not> accepted ?fm 1" "\<not> accepted ?fm 2" "accepted ?fm 3"
    "accepted ?fm 4"
    by (simp_all add: accepted_def isItemNull_def py_in_def scenario_def)
  show ?thesis
    using filter_pass_partition [of ?fm 2 "[4, 3, 2, 1, 0]"] d
    by (simp add: po acc)
qed

text \<open>
  Claim C2, as stated, fails. In the scenario row 4 is in \<open>visible\<close>, so
  \<open>filterAcceptsRow\<close> takes its first accepting branch and never reaches the branch that
  removes the override: after the pass that \<open>setOverrides(4)\<close> runs, \<open>activeInfluences\<close> is
  \<open>[0, 2, 4]\<close> and \<open>overrides\<close> still holds 4.
\<close>

theorem override_kept_counterexample:
  "setOverrides scenario [PyInt 4] =
     Inr (scenario\<lparr>overrides := [PyInt 4],
                   activeInfluences := [PyInt 0, PyInt 2, PyInt 4],
                   inactiveInfluences := [PyInt 1, PyInt 3, PyInt 5]\<rparr>)"
  by (rule scenario_pass)

text \<open>
  Claim C2, amended. \<open>setOverrides\<close> with integer arguments stores them and runs one filter
  pass. A source row with a label that is in neither \<open>visible\<close> nor \<open>selectedRows\<close> and
  was passed once is no longer in \<open>overrides\<close> after that pass. A row that is null,
  visible or selected keeps every occurrence of its override. In the scenario the pass
  yields \<open>activeInfluences = [0, 2, 4]\<close> in row order and \<open>overrides\<close> stays \<open>[4]\<close>.
\<close>

theorem override_consumed_when_used:
  "(list_all isinstance_int args \<longrightarrow>
      setOverrides fm args = Inr (invalidateFilter (fm\<lparr>overrides := args\<rparr>))) \<and>
   (r \<in> set (sourceRows fm) \<and> \<not> isItemNull fm r \<and> \<not> py_in (PyInt r) (visible fm) \<and>
    \<not> py_in (PyInt r) (selectedRows fm) \<and> py_count (PyInt r) args = 1 \<longrightarrow>
      \<not> py_in (PyInt r) (overrides (invalidateFilter (fm\<lparr>overrides := args\<rparr>)))) \<and>
   (isItemNull fm r \<or> py_in (PyInt r) (visible fm) \<or> py_in (PyInt r) (selectedRows fm) \<longrightarrow>
      py_count (PyInt r) (overrides (invalidateFilter (fm\<lparr>overrides := args\<rparr>))) =
        py_count (PyInt r) args) \<and>
   activeInfluences (invalidateFilter (scenario\<lparr>overrides := [PyInt 4]\<rparr>)) =
     [PyInt 0, PyInt 2, PyInt 4] \<and>
   overrides (invalidateFilter (scenario\<lparr>overrides := [PyInt 4]\<rparr>)) = [PyInt 4]"
proof -
  have a: "list_all isinstance_int args \<longrightarrow>
      setOverrides fm args = Inr (invalidateFilter (fm\<lparr>overrides := args\<rparr>))"
    by (simp add: setOverrides_def)
  have b: "r \<in> set (sourceRows fm) \<and> \<not> isItemNull fm r \<and> \<not> py_in (PyInt r) (visible fm) \<and>
    \<not> py_in (PyInt r) (selectedRows fm) \<and> py_count (PyInt r) args = 1 \<longrightarrow>
      \<not> py_in (PyInt r) (overrides (invalidateFilter (fm\<lparr>overrides := args\<rparr>)))"
    by (simp add: py_in_count invalidateFilter_overrides_count consumesOverride_def
        isItemNull_def sourceRows_def)
  have c: "isItemNull fm r \<or> py_in (PyInt r) (visible fm) \<or> py_in (PyInt r) (selectedRows fm) \<longrightarrow>
      py_count (PyInt r) (overrides (invalidateFilter (fm\<lparr>overrides := args\<rparr>))) =
        py_count (PyInt r) args"
    by (auto simp add: invalidateFilter_overrides_count consumesOverride_def
        isItemNull_def sourceRows_def)
  have d: "invalidateFilter (scenario\<lparr>overrides := [PyInt 4]\<rparr>) =
     scenario\<lparr>overrides := [PyInt 4],
                   activeInfluences := [PyInt 0, PyInt 2, PyInt 4],
                   inactiveInfluences := [PyInt 1, PyInt 3, PyInt 5]\<rparr>"
    using scenario_pass by (simp add: setOverrides_def)
  show ?thesis using a b c by (simp add: d)
qed

text \<open>
  An instance: row 1 of the scenario is hidden, so its override is used up by the pass;
  row 4 is visible, so its override stays.
\<close>

theorem override_consumed_when_used_witness:
  "setOverrides scenario [PyInt 1, PyInt 4] =
     Inr (invalidateFilter (scenario\<lparr>overrides := [PyInt 1, PyInt 4]\<rparr>)) \<and>
   py_in (PyInt 1)
     (overrides (invalidateFilter (scenario\<lparr>overrides := [PyInt 1, PyInt 4]\<rparr>))) = False \<and>
   py_count (PyInt 4)
     (overrides (invalidateFilter (scenario\<lparr>overrides := [PyInt 1, PyInt 4]\<rparr>))) = 1"
  using override_consumed_when_used [of "[PyInt 1, PyInt 4]" scenario 1]
    override_consumed_when_used [of "[PyInt 1, PyInt 4]" scenario 4]
  by (simp add: scenario_def sourceRows_def isItemNull_def py_in_def py_count_def py_eq_def)

text \<open>
  Claim C10. The integer check of \<open>setVisible\<close> and \<open>setOverrides\<close> lets booleans through:
  when every argument is an integer or a boolean, neither call raises, \<open>setVisible\<close>
  stores the arguments as they are, and \<open>setOverrides\<close> stores them and runs its pass.
\<close>

theorem setters_accept_bool:
  assumes "\<forall>x \<in> set args. (\<exists>i. x = PyInt i) \<or> (\<exists>b. x = PyBool b)"
  shows "setVisible fm args = Inr (invalidateFilter (fm\<lparr>visible := args\<rparr>)) \<and>
         visible (invalidateFilter (fm\<lparr>visible := args\<rparr>)) = args \<and>
         setOverrides fm args = Inr (invalidateFilter (fm\<lparr>overrides := args\<rparr>))"
proof -
  have "list_all isinstance_int args"
    using assms by (auto simp: list_all_iff)
  then show ?thesis
    by (simp add: setVisible_def setOverrides_def invalidateFilter_frame)
qed

text \<open>An instance: \<open>setVisible(True)\<close> succeeds and \<open>visible\<close> is \<open>(True,)\<close> afterwards.\<close>

theorem setters_accept_bool_witness:
  "setVisible scenario [PyBool True] = Inr (invalidateFilter (scenario\<lparr>visible := [PyBool True]\<rparr>)) \<and>
   visible (invalidateFilter (scenario\<lparr>visible := [PyBool True]\<rparr>)) = [PyBool True] \<and>
   setOverrides scenario [PyBool True]
     = Inr (invalidateFilter (scenario\<lparr>overrides := [PyBool True]\<rparr>))"
proof -
  have h: "\<forall>x \<in> set [PyBool True]. (\<exists>i. x = PyInt i) \<or> (\<exists>b. x = PyBool b)"
    by auto
  show ?thesis
    using setters_accept_bool [OF h, of scenario] by simp
qed

section \<open>Source influences\<close>

lemma py_remove_as_filter:
  "py_count a xs \<le> 1 \<Longrightarrow> py_remove a xs = filter (\<lambda>x. \<not> py_eq x a) xs"
proof (induction xs)
  case Nil
  then show ?case by simp
next
  case (Cons x xs)
  show ?case
  proof (cases "py_eq x a")
    case True
    with Cons.prems have "py_count a xs = 0" by (simp add: py_count_def)
    then have "filter (\<lambda>x. \<not> py_eq x a) xs = xs"
      by (simp add: py_count_def filter_id_conv filter_empty_conv)
    with True show ?thesis by simp
  next
    case False
    with Cons show ?thesis by (simp add: py_count_def)
  qed
qed

lemma py_remove_absent: "\<not> py_in a xs \<Longrightarrow> py_remove a xs = xs"
  by (induction xs) (auto simp: py_in_def)

text \<open>
  Claim C5. With an empty cached selection in the weight list \<open>sourceInfluences\<close> raises.
  In precision mode it returns the weight list's selected rows with the active influence
  taken out when it is among them (\<open>remove\<close> drops its first occurrence; for a selection
  that lists it at most once that is every row other than the active influence). Otherwise
  it returns the weight list's \<open>activeInfluences\<close> that are not among the selected rows.
\<close>

theorem sourceInfluences_result:
  "(selectedRows (weightFilterModel w) = [] \<longrightarrow> sourceInfluences w = Inl TypeError) \<and>
   (selectedRows (weightFilterModel w) \<noteq> [] \<and> precision w \<and> activeInfluence w = Inr a \<longrightarrow>
      (\<exists>w'. sourceInfluences w =
         Inr (if py_in a (selectedRows (weightFilterModel w))
              then py_remove a (selectedRows (weightFilterModel w))
              else selectedRows (weightFilterModel w), w'))) \<and>
   (selectedRows (weightFilterModel w) \<noteq> [] \<and> precision w \<and> activeInfluence w = Inr a \<and>
    py_count a (selectedRows (weightFilterModel w)) \<le> 1 \<longrightarrow>
      (\<exists>w'. sourceInfluences w =
         Inr (filter (\<lambda>x. \<not> py_eq x a) (selectedRows (weightFilterModel w)), w'))) \<and>
   (selectedRows (weightFilterModel w) \<noteq> [] \<and> \<not> precision w \<longrightarrow>
      sourceInfluences w =
         Inr (filter (\<lambda>x. \<not> py_in x (selectedRows (weightFilterModel w)))
                (activeInfluences (weightFilterModel w)), w))"
proof -
  have "py_count a (selectedRows (weightFilterModel w)) \<le> 1 \<Longrightarrow>
        (if py_in a (selectedRows (weightFilterModel w))
              then py_remove a (selectedRows (weightFilterModel w))
              else selectedRows (weightFilterModel w))
        = filter (\<lambda>x. \<not> py_eq x a) (selectedRows (weightFilterModel w))"
    using py_remove_as_filter [of a "selectedRows (weightFilterModel w)"]
      py_remove_absent [of a "selectedRows (weightFilterModel w)"]
    by auto
  then show ?thesis
    by (auto simp: sourceInfluences_def Let_def)
qed

text \<open>
  The two scenarios of the specification, and the window without any selection.
\<close>

theorem sourceInfluences_result_witness:
  "sourceInfluences singleSelectWindow = Inr ([PyInt 0, PyInt 2, PyInt 3], singleSelectWindow) \<and>
   fst (projr (sourceInfluences precisionWindow)) = [PyInt 0] \<and>
   sourceInfluences newWindow = Inl TypeError"
  using sourceInfluences_result [of singleSelectWindow "PyInt 1"]
    sourceInfluences_result [of precisionWindow "PyInt 1"]
    sourceInfluences_result [of newWindow "PyInt 1"]
  by (auto simp: singleSelectWindow_def precisionWindow_def newWindow_def newModel_def
      activeInfluence_def py_in_def py_eq_def py_count_def)

text \<open>
  Claim C6 does not hold of the code. In precision mode with weight selection \<open>[0, 1]\<close>
  and active influence 1, \<open>sourceInfluences\<close> returns \<open>[0]\<close> and leaves the weight filter
  model's cached \<open>selectedRows\<close> as \<open>[0]\<close>: the returned list and the cache are one
  object, and \<open>remove\<close> changes it in place.
\<close>

theorem sourceInfluences_mutates_selection:
  "selectedRows (weightFilterModel precisionWindow) = [PyInt 0, PyInt 1] \<and>
   sourceInfluences precisionWindow =
     Inr ([PyInt 0],
          precisionWindow\<lparr>weightFilterModel :=
            (weightFilterModel precisionWindow)\<lparr>selectedRows := [PyInt 0]\<rparr>\<rparr>)"
  by (simp add: sourceInfluences_def precisionWindow_def newWindow_def newModel_def
      activeInfluence_def py_in_def py_eq_def Let_def)

section \<open>Batch weight edits\<close>

lemma dict_set_fresh: "k \<notin> fst ` set d \<Longrightarrow> dict_set k v d = d @ [(k, v)]"
  by (induction d) auto

lemma collectUpdates_raises:
  "\<exists>r \<in> set (map (vertexResult f verts a srcs amount) soft). isl r \<Longrightarrow>
     \<exists>e. collectUpdates f verts a srcs amount soft updates = Inl e"
proof (induction soft arbitrary: updates)
  case Nil
  then show ?case by simp
next
  case (Cons vf soft)
  obtain v fo where vf: "vf = (v, fo)" by (cases vf)
  show ?case
  proof (cases "vertexResult f verts a srcs amount vf")
    case (Inl e)
    then show ?thesis
      by (auto simp: vf vertexResult_def split: option.splits)
  next
    case (Inr new)
    with Cons.prems have "\<exists>r \<in> set (map (vertexResult f verts a srcs amount) soft). isl r"
      by auto
    from Cons.IH [OF this] Inr show ?thesis
      by (auto simp: vf vertexResult_def split: option.splits)
  qed
qed

lemma collectUpdates_all:
  "\<forall>r \<in> set (map (vertexResult f verts a srcs amount) soft). \<not> isl r \<Longrightarrow>
   distinct (map fst soft) \<Longrightarrow> fst ` set updates \<inter> fst ` set soft = {} \<Longrightarrow>
     collectUpdates f verts a srcs amount soft updates =
       Inr (updates @ zip (map fst soft) (map projr (map (vertexResult f verts a srcs amount) soft)))"
proof (induction soft arbitrary: updates)
  case Nil
  then show ?case by simp
next
  case (Cons vf soft)
  obtain v fo where vf: "vf = (v, fo)" by (cases vf)
  from Cons.prems(1) obtain new where new: "vertexResult f verts a srcs amount vf = Inr new"
    by (cases "vertexResult f verts a srcs amount vf") auto
  have fresh: "v \<notin> fst ` set updates"
    using Cons.prems(3) by (auto simp: vf)
  have step: "collectUpdates f verts a srcs amount (vf # soft) updates =
              collectUpdates f verts a srcs amount soft (updates @ [(v, new)])"
    using new by (auto simp: vf vertexResult_def dict_set_fresh [OF fresh] split: option.splits)
  have disj: "fst ` set (updates @ [(v, new)]) \<inter> fst ` set soft = {}"
    using Cons.prems(2,3) by (auto simp: vf)
  have ih: "collectUpdates f verts a srcs amount soft (updates @ [(v, new)]) =
       Inr ((updates @ [(v, new)]) @
            zip (map fst soft) (map projr (map (vertexResult f verts a srcs amount) soft)))"
    using Cons.prems by (intro Cons.IH disj) auto
  have rhs: "zip (map fst (vf # soft))
                 (map projr (map (vertexResult f verts a srcs amount) (vf # soft))) =
             (v, new) # zip (map fst soft)
                 (map projr (map (vertexResult f verts a srcs amount) soft))"
    using new vf by simp
  show ?case unfolding step ih rhs by simp
qed

lemma perVertex_vertexResult:
  "perVertex op w a srcs =
     map (vertexResult (skinFunction op w) (vertices w) a srcs (amountOf op w)) (softSelection w)"
  by (simp add: perVertex_def)

lemma sourceInfluences_frame:
  "sourceInfluences w = Inr (srcs, w1) \<Longrightarrow>
     vertices w1 = vertices w \<and> softSelection w1 = softSelection w \<and>
     skinCalls w1 = skinCalls w \<and> skin w1 = skin w"
  by (auto simp: sourceInfluences_def Let_def split: if_splits sum.splits)

lemma invalidateWeights_skinCalls:
  "skinCalls (state_of (invalidateWeights w)) = skinCalls w"
  by (simp add: invalidateWeights_def validate_def Let_def
      split: list.splits option.splits sum.splits)

lemma runBatch_batchEdit:
  "runBatch op w = validate (batchEdit (skinFunction op w) (amountOf op w)) w"
  by (cases op) (simp_all add: applyPreset_def setWeights_def incrementWeights_def
      scaleWeights_def)

lemma batchEdit_raises:
  assumes "activeInfluence w = Inr a" "sourceInfluences w = Inr (srcs, w1)"
    "\<exists>r \<in> set (map (vertexResult f (vertices w) a srcs amount) (softSelection w)). isl r"
  shows "\<exists>e. batchEdit f amount w = Raised e w1"
proof -
  from sourceInfluences_frame [OF assms(2)]
  have fr: "vertices w1 = vertices w" "softSelection w1 = softSelection w" by simp_all
  from collectUpdates_raises [OF assms(3), of "[]"]
  obtain e where "collectUpdates f (vertices w) a srcs amount (softSelection w) [] = Inl e" ..
  then show ?thesis
    by (simp add: batchEdit_def assms(1,2) fr)
qed

lemma batchEdit_applies:
  assumes "activeInfluence w = Inr a" "sourceInfluences w = Inr (srcs, w1)"
    "\<forall>r \<in> set (map (vertexResult f (vertices w) a srcs amount) (softSelection w)). \<not> isl r"
    "distinct (map fst (softSelection w))"
  shows "skinCalls (state_of (batchEdit f amount w)) =
     skinCalls w @ [ApplyWeights (zip (map fst (softSelection w))
        (map projr (map (vertexResult f (vertices w) a srcs amount) (softSelection w))))]"
proof -
  from sourceInfluences_frame [OF assms(2)]
  have fr: "vertices w1 = vertices w" "softSelection w1 = softSelection w"
    "skinCalls w1 = skinCalls w" by simp_all
  have "collectUpdates f (vertices w) a srcs amount (softSelection w) [] =
     Inr ([] @ zip (map fst (softSelection w))
        (map projr (map (vertexResult f (vertices w) a srcs amount) (softSelection w))))"
    by (rule collectUpdates_all [OF assms(3,4)]) simp
  then show ?thesis
    by (simp add: batchEdit_def assms(1,2) fr invalidateWeights_skinCalls)
qed

text \<open>
  Claim C4. Each of \<open>applyPreset\<close>, \<open>setWeights\<close>, \<open>incrementWeights\<close> and
  \<open>scaleWeights\<close> either calls \<open>applyWeights\<close> once, with the update of every
  soft-selected vertex in one map, or not at all: on an invalid skin, when the active or
  the source influences cannot be resolved, and when the update of any vertex raises, the
  skin receives no call.
\<close>

theorem batch_edit_atomic:
  assumes "distinct (map fst (softSelection w))"
  shows
  "(\<not> isValid (skin w) \<longrightarrow> runBatch op w = Done w) \<and>
   (isValid (skin w) \<and> activeInfluence w = Inl e \<longrightarrow> runBatch op w = Raised e w) \<and>
   (isValid (skin w) \<and> activeInfluence w = Inr a \<and> sourceInfluences w = Inl e \<longrightarrow>
      runBatch op w = Raised e w) \<and>
   (isValid (skin w) \<and> activeInfluence w = Inr a \<and> sourceInfluences w = Inr (srcs, w1) \<and>
    (\<exists>r \<in> set (perVertex op w a srcs). isl r) \<longrightarrow>
      (\<exists>e'. runBatch op w = Raised e' w1) \<and> skinCalls w1 = skinCalls w) \<and>
   (isValid (skin w) \<and> activeInfluence w = Inr a \<and> sourceInfluences w = Inr (srcs, w1) \<and>
    (\<forall>r \<in> set (perVertex op w a srcs). \<not> isl r) \<longrightarrow>
      skinCalls (state_of (runBatch op w)) =
        skinCalls w @
          [ApplyWeights (zip (map fst (softSelection w)) (map projr (perVertex op w a srcs)))])"
proof (intro conjI impI)
  show "\<not> isValid (skin w) \<Longrightarrow> runBatch op w = Done w"
    by (simp add: runBatch_batchEdit validate_def)
  show "isValid (skin w) \<and> activeInfluence w = Inl e \<Longrightarrow> runBatch op w = Raised e w"
    by (simp add: runBatch_batchEdit validate_def batchEdit_def)
  show "isValid (skin w) \<and> activeInfluence w = Inr a \<and> sourceInfluences w = Inl e \<Longrightarrow>
      runBatch op w = Raised e w"
    by (simp add: runBatch_batchEdit validate_def batchEdit_def)
next
  assume h: "isValid (skin w) \<and> activeInfluence w = Inr a \<and> sourceInfluences w = Inr (srcs, w1) \<and>
    (\<exists>r \<in> set (perVertex op w a srcs). isl r)"
  then show "\<exists>e'. runBatch op w = Raised e' w1"
    using batchEdit_raises [of w a srcs w1 "skinFunction op w" "amountOf op w"]
    by (simp add: runBatch_batchEdit validate_def perVertex_vertexResult)
  from h show "skinCalls w1 = skinCalls w"
    using sourceInfluences_frame [of w srcs w1] by simp
next
  assume h: "isValid (skin w) \<and> activeInfluence w = Inr a \<and> sourceInfluences w = Inr (srcs, w1) \<and>
    (\<forall>r \<in> set (perVertex op w a srcs). \<not> isl r)"
  then show "skinCalls (state_of (runBatch op w)) =
        skinCalls w @
          [ApplyWeights (zip (map fst (softSelection w)) (map projr (perVertex op w a srcs)))]"
    using batchEdit_applies [of w a srcs w1 "skinFunction op w" "amountOf op w"] assms
    by (simp add: runBatch_batchEdit validate_def perVertex_vertexResult)
qed


text \<open>
  Three soft-selected vertices. When the second has no stored weights its update raises
  and the skin receives nothing; when all three compute, \<open>incrementWeights\<close> in the pull
  direction applies the three negated updates in one call.
\<close>

theorem batch_edit_atomic_witness:
  "skinCalls (state_of (runBatch SetWeights
       (batchWindow [(10, [(0, 1)]), (11, []), (12, [(0, 1)])]))) = [] \<and>
   skinCalls (state_of (runBatch (IncrementWeights True)
       (batchWindow [(10, [(0, 1)]), (11, [(0, 1)]), (12, [(0, 1)])]))) =
     [ApplyWeights [(10, [(0, - 1)]), (11, [(0, - (1 / 2))]), (12, [(0, - 1)])]]"
proof -
  let ?bad = "batchWindow [(10, [(0, 1)]), (11, []), (12, [(0, 1)])]"
  let ?good = "batchWindow [(10, [(0, 1)]), (11, [(0, 1)]), (12, [(0, 1)])]"
  have d1: "distinct (map fst (softSelection ?bad))"
    by (simp add: batchWindow_def)
  have d2: "distinct (map fst (softSelection ?good))"
    by (simp add: batchWindow_def)
  have defs: "activeInfluence ?bad = Inr (PyInt 1)"
    "sourceInfluences ?bad = Inr ([PyInt 0, PyInt 2, PyInt 3], ?bad)"
    "activeInfluence ?good = Inr (PyInt 1)"
    "sourceInfluences ?good = Inr ([PyInt 0, PyInt 2, PyInt 3], ?good)"
    "isValid (skin ?bad)" "isValid (skin ?good)" "skinCalls ?bad = []" "skinCalls ?good = []"
    by (simp_all add: batchWindow_def singleSelectWindow_def newWindow_def newModel_def
        exampleSkin_def activeInfluence_def sourceInfluences_def py_in_def py_eq_def Let_def)
  have p1: "perVertex SetWeights ?bad (PyInt 1) [PyInt 0, PyInt 2, PyInt 3] =
      [Inr [(0, 1)], Inl ValueError, Inr [(0, 1)]]"
    by (simp add: perVertex_def vertexResult_def batchWindow_def singleSelectWindow_def
        newWindow_def exampleSkin_def)
  have p2: "perVertex (IncrementWeights True) ?good (PyInt 1) [PyInt 0, PyInt 2, PyInt 3] =
      [Inr [(0, - 1)], Inr [(0, - (1 / 2))], Inr [(0, - 1)]]"
    by (simp add: perVertex_def vertexResult_def batchWindow_def singleSelectWindow_def
        newWindow_def exampleSkin_def)
  have s2: "softSelection ?good = [(10, 1), (11, 1 / 2), (12, 1)]"
    by (simp add: batchWindow_def)
  from batch_edit_atomic [OF d1, of SetWeights _ "PyInt 1" "[PyInt 0, PyInt 2, PyInt 3]" ?bad]
  have "skinCalls (state_of (runBatch SetWeights ?bad)) = []"
    using defs p1 by auto
  moreover
  from batch_edit_atomic [OF d2, of "IncrementWeights True" _ "PyInt 1"
      "[PyInt 0, PyInt 2, PyInt 3]" ?good]
  have "skinCalls (state_of (runBatch (IncrementWeights True) ?good)) =
     [ApplyWeights [(10, [(0, - 1)]), (11, [(0, - (1 / 2))]), (12, [(0, - 1)])]]"
    using defs p2 s2 by simp
  ultimately show ?thesis by simp
qed

section \<open>Selection synchronisation\<close>

lemma siblingModel_neq [simp]: "siblingModel m \<noteq> m" "m \<noteq> siblingModel m"
  by (cases m; simp)+

lemma model_setModel [simp]:
  "model m (setModel m fm w) = fm"
  "model (siblingModel m) (setModel m fm w) = model (siblingModel m) w"
  "model m (setModel (siblingModel m) fm w) = model m w"
  by (cases m; simp)+

lemma setModel_fields [simp]:
  "pending (setModel m fm w) = pending w"
  "trace (setModel m fm w) = trace w"
  "skin (setModel m fm w) = skin w"
  "skinCalls (setModel m fm w) = skinCalls w"
  by (cases m; simp)+

lemma setModel_model [simp]: "setModel m (model m w) w = w"
  by (cases m) simp_all

lemma viewCommand_fields [simp]:
  "pending (viewCommand m c w) = pending w"
  "trace (viewCommand m c w) = trace w"
  "model (siblingModel m) (viewCommand m c w) = model (siblingModel m) w"
  "viewLog (model m (viewCommand m c w)) = viewLog (model m w) @ [c]"
  "viewSelection (model m (viewCommand m c w)) = viewSelection (model m w)"
  by (simp_all add: viewCommand_def)

lemma flag_updates [simp]:
  "pending (beginSelectionUpdate w) = True"
  "pending (endSelectionUpdate w) = False"
  "pending (logSiblingSelect s rows w) = pending w"
  "trace (beginSelectionUpdate w) = trace w @ [BeginSelectionUpdate]"
  "trace (endSelectionUpdate w) = trace w @ [EndSelectionUpdate]"
  "trace (logSiblingSelect s rows w) = trace w @ [SiblingSelect s rows]"
  "model m (beginSelectionUpdate w) = model m w"
  "model m (endSelectionUpdate w) = model m w"
  "model m (logSiblingSelect s rows w) = model m w"
  by (cases m; simp add: beginSelectionUpdate_def endSelectionUpdate_def logSiblingSelect_def)+

lemma requestInfluenceChange_frame [simp]:
  "pending (state_of (requestInfluenceChange w)) = pending w"
  "trace (state_of (requestInfluenceChange w)) = trace w"
  "model m (state_of (requestInfluenceChange w)) = model m w"
  by (cases m; simp add: requestInfluenceChange_def split: sum.splits)+

lemma matchSelection_pending: "pending w \<Longrightarrow> matchSelection notify m w = Done w"
  by (simp add: matchSelection.simps isPending_def)

lemma onSelectionChanged_pending:
  assumes "pending w"
  shows "pending (state_of (onSelectionChanged notify m w))"
    and "trace (state_of (onSelectionChanged notify m w)) = trace w"
    and "model (siblingModel m) (state_of (onSelectionChanged notify m w))
           = model (siblingModel m) w"
    and "viewLog (model m (state_of (onSelectionChanged notify m w))) = viewLog (model m w)"
    and "viewSelection (model m (state_of (onSelectionChanged notify m w)))
           = viewSelection (model m w)"
  using assms
  by (simp_all add: onSelectionChanged.simps [of notify m w] Let_def matchSelection_pending
      setSelectedRows_def invalidateFilter_frame)

lemma select_pending:
  assumes "pending w"
  shows "pending (select notify m rows w)"
    and "trace (select notify m rows w) = trace w"
    and "model (siblingModel m) (select notify m rows w) = model (siblingModel m) w"
  using assms
  by (simp_all add: select.simps [of notify m rows w] Let_def onSelectionChanged_pending)

lemma setOverrides_hidden:
  "list_all isinstance_int rows \<Longrightarrow>
     (let hidden = filter (isRowHidden fm) rows
      in if length hidden > 0 then setOverrides fm hidden else Inr fm)
     = Inr (if filter (isRowHidden fm) rows = [] then fm
            else invalidateFilter (fm\<lparr>overrides := filter (isRowHidden fm) rows\<rparr>))"
  by (auto simp: Let_def setOverrides_def list_all_iff)

lemma selectInfluences_unfold:
  assumes "list_all isinstance_int rows"
  shows "\<exists>fm. labels fm = labels (model m w) \<and> viewLog fm = viewLog (model m w) \<and>
          viewSelection fm = viewSelection (model m w) \<and>
          (filter (isRowHidden (model m w)) rows = [] \<longrightarrow> fm = model m w) \<and>
          selectInfluences notify m rows w =
           (case rows of
              row # rest \<Rightarrow>
                (case int_value row of
                   None \<Rightarrow> Raised TypeError (setModel m fm w)
                 | Some r \<Rightarrow>
                     Done (viewCommand m (ScrollTo r)
                             (select notify m (List.map_filter int_value rows)
                                (setModel m fm w))))
            | [] \<Rightarrow>
                (case activeInfluences fm of
                   active # others \<Rightarrow>
                     (case int_value active of
                        None \<Rightarrow> Raised TypeError (setModel m fm w)
                      | Some r \<Rightarrow>
                          Done (viewCommand m ScrollToTop
                                  (select notify m [r] (setModel m fm w))))
                 | [] \<Rightarrow> Done (setModel m fm w)))"
proof -
  let ?fm = "if filter (isRowHidden (model m w)) rows = [] then model m w
            else invalidateFilter ((model m w)\<lparr>overrides := filter (isRowHidden (model m w)) rows\<rparr>)"
  have ov: "(let hidden = filter (isRowHidden (model m w)) rows
      in if length hidden > 0 then setOverrides (model m w) hidden else Inr (model m w))
     = Inr ?fm"
    by (rule setOverrides_hidden [OF assms])
  have "selectInfluences notify m rows w =
           (case rows of
              row # rest \<Rightarrow>
                (case int_value row of
                   None \<Rightarrow> Raised TypeError (setModel m ?fm w)
                 | Some r \<Rightarrow>
                     Done (viewCommand m (ScrollTo r)
                             (select notify m (List.map_filter int_value rows)
                                (setModel m ?fm w))))
            | [] \<Rightarrow>
                (case activeInfluences ?fm of
                   active # others \<Rightarrow>
                     (case int_value active of
                        None \<Rightarrow> Raised TypeError (setModel m ?fm w)
                      | Some r \<Rightarrow>
                          Done (viewCommand m ScrollToTop
                                  (select notify m [r] (setModel m ?fm w))))
                 | [] \<Rightarrow> Done (setModel m ?fm w)))"
    using assms by (simp only: selectInfluences.simps [of notify m rows w] ov) simp
  moreover have "labels ?fm = labels (model m w)" "viewLog ?fm = viewLog (model m w)"
    "viewSelection ?fm = viewSelection (model m w)"
    by (simp_all add: invalidateFilter_frame)
  moreover have "filter (isRowHidden (model m w)) rows = [] \<longrightarrow> ?fm = model m w"
    by simp
  ultimately show ?thesis by blast
qed

lemma selectInfluences_invalid:
  "\<not> list_all isinstance_int rows \<Longrightarrow> selectInfluences notify m rows w = Raised TypeError w"
  by (simp add: selectInfluences.simps [of notify m rows w])

lemma selectInfluences_pending:
  assumes "pending w"
  shows "pending (state_of (selectInfluences notify m rows w)) \<and>
         trace (state_of (selectInfluences notify m rows w)) = trace w \<and>
         model (siblingModel m) (state_of (selectInfluences notify m rows w))
           = model (siblingModel m) w"
proof (cases "list_all isinstance_int rows")
  case False
  with assms show ?thesis by (simp add: selectInfluences_invalid)
next
  case True
  from selectInfluences_unfold [OF True, of m w notify]
  obtain fm where eq: "selectInfluences notify m rows w =
           (case rows of
              row # rest \<Rightarrow>
                (case int_value row of
                   None \<Rightarrow> Raised TypeError (setModel m fm w)
                 | Some r \<Rightarrow>
                     Done (viewCommand m (ScrollTo r)
                             (select notify m (List.map_filter int_value rows)
                                (setModel m fm w))))
            | [] \<Rightarrow>
                (case activeInfluences fm of
                   active # others \<Rightarrow>
                     (case int_value active of
                        None \<Rightarrow> Raised TypeError (setModel m fm w)
                      | Some r \<Rightarrow>
                          Done (viewCommand m ScrollToTop
                                  (select notify m [r] (setModel m fm w))))
                 | [] \<Rightarrow> Done (setModel m fm w)))"
    by blast
  have p: "pending (setModel m fm w)" using assms by simp
  show ?thesis
    unfolding eq using assms select_pending [OF p]
    by (simp split: list.splits option.splits)
qed


lemma siblingModel_twice [simp]: "siblingModel (siblingModel m) = m"
  by (cases m) simp_all

lemma selectInfluences_done:
  assumes "list_all isinstance_int rows" "rows \<noteq> []"
  shows "\<not> raised (selectInfluences notify m rows w)"
proof -
  from assms obtain row rest where rows: "rows = row # rest" by (cases rows) auto
  with assms(1) obtain r where r: "int_value row = Some r" by (cases row) auto
  from selectInfluences_unfold [OF assms(1), of m w notify] show ?thesis
    by (auto simp: rows r)
qed

lemma matchSelection_run:
  assumes "\<not> pending w"
  shows "trace (state_of (matchSelection notify m w)) =
           trace w @ [BeginSelectionUpdate, SiblingSelect (siblingModel m) (selectedRows (model m w))]
             @ (if raised (matchSelection notify m w) then [] else [EndSelectionUpdate])"
    and "pending (state_of (matchSelection notify m w)) = raised (matchSelection notify m w)"
    and "model m (state_of (matchSelection notify m w)) = model m w"
    and "raised (matchSelection notify m w) =
           raised (selectInfluences notify (siblingModel m) (selectedRows (model m w))
                     (logSiblingSelect (siblingModel m) (selectedRows (model m w))
                        (beginSelectionUpdate w)))"
proof -
  let ?w0 = "logSiblingSelect (siblingModel m) (selectedRows (model m w)) (beginSelectionUpdate w)"
  let ?r = "selectInfluences notify (siblingModel m) (selectedRows (model m w)) ?w0"
  have p0: "pending ?w0" by simp
  from selectInfluences_pending [OF p0, of notify "siblingModel m" "selectedRows (model m w)"]
  have fr: "pending (state_of ?r)" "trace (state_of ?r) = trace ?w0"
    "model m (state_of ?r) = model m ?w0"
    by simp_all
  have eq: "matchSelection notify m w =
      (case ?r of Raised e w' \<Rightarrow> Raised e w' | Done w' \<Rightarrow> Done (endSelectionUpdate w'))"
    using assms by (simp add: matchSelection.simps [of notify m w] isPending_def)
  show "trace (state_of (matchSelection notify m w)) =
           trace w @ [BeginSelectionUpdate, SiblingSelect (siblingModel m) (selectedRows (model m w))]
             @ (if raised (matchSelection notify m w) then [] else [EndSelectionUpdate])"
    using fr unfolding eq by (cases ?r) simp_all
  show "pending (state_of (matchSelection notify m w)) = raised (matchSelection notify m w)"
    using fr unfolding eq by (cases ?r) simp_all
  show "model m (state_of (matchSelection notify m w)) = model m w"
    using fr unfolding eq by (cases ?r) simp_all
  show "raised (matchSelection notify m w) = raised ?r"
    unfolding eq by (cases ?r) simp_all
qed

lemma matchSelection_sibling_rows:
  assumes "\<not> pending w" "list_all isinstance_int (selectedRows (model m w))"
    "selectedRows (model m w) \<noteq> []"
  shows "\<not> raised (matchSelection notify m w)"
  using matchSelection_run(4) [OF assms(1), of notify m] selectInfluences_done [OF assms(2,3)]
  by simp

lemma newEvents_append: "trace w' = trace w @ es \<Longrightarrow> newEvents w w' = es"
  by (simp add: newEvents_def)

lemma syncWindow_chain:
  "matchSelection (\<lambda>old new. True) InfluenceFilterModel syncWindow =
     Done (syncWindow
       \<lparr>weightFilterModel := (weightFilterModel syncWindow)
          \<lparr>selectedRows := [PyInt 1], overrides := [],
           activeInfluences := [PyInt 0, PyInt 1], inactiveInfluences := [PyInt 2, PyInt 3],
           viewSelection := [1], viewLog := [Select [1], ScrollTo 1]\<rparr>,
        skinCalls := [SelectInfluence (PyInt 1)],
        trace := [BeginSelectionUpdate, SiblingSelect WeightFilterModel [PyInt 1],
                  EndSelectionUpdate]\<rparr>)"
  by (simp add: matchSelection.simps selectInfluences.simps select.simps
      onSelectionChanged.simps syncWindow_def newWindow_def newModel_def exampleSkin_def
      isPending_def beginSelectionUpdate_def endSelectionUpdate_def logSiblingSelect_def
      isRowHidden_def py_in_def py_eq_def setOverrides_def invalidateFilter_def filterRows_def
      passOrder_def sourceRows_def filterAcceptsRow_def isItemNull_def mapSelectionFromSource_def
      getSelectedRows_def setSelectedRows_def requestInfluenceChange_def activeInfluence_def
      viewCommand_def List.map_filter_def Let_def upt_rec [of 0])


text \<open>
  Claim C3. \<open>matchSelection\<close> called while the flag is set returns at once and changes
  nothing, so it does not call the sibling. Called with the flag clear, it sets the flag,
  calls the sibling's \<open>selectInfluences\<close> once, and clears the flag when that call
  returns: whatever signals the views emit on the way, the run adds exactly one sibling
  call to the trace (the nested \<open>matchSelection\<close> of the sibling's handler finds the flag
  set), and never has more than one synchronisation between begin and end.
\<close>

theorem matchSelection_guarded:
  "(isPending w \<longrightarrow> matchSelection notify m w = Done w) \<and>
   (\<not> isPending w \<longrightarrow>
      newEvents w (state_of (matchSelection notify m w)) =
        [BeginSelectionUpdate, SiblingSelect (siblingModel m) (selectedRows (model m w))]
          @ (if raised (matchSelection notify m w) then [] else [EndSelectionUpdate]) \<and>
      siblingSelects (newEvents w (state_of (matchSelection notify m w))) = 1 \<and>
      maxInFlight 0 (newEvents w (state_of (matchSelection notify m w))) = 1 \<and>
      isPending (state_of (matchSelection notify m w)) = raised (matchSelection notify m w)) \<and>
   (\<not> isPending w \<and> list_all isinstance_int (selectedRows (model m w)) \<and>
    selectedRows (model m w) \<noteq> [] \<longrightarrow> \<not> raised (matchSelection notify m w))"
proof (intro conjI impI)
  show "isPending w \<Longrightarrow> matchSelection notify m w = Done w"
    by (simp add: matchSelection_pending isPending_def)
next
  assume np: "\<not> isPending w"
  then have np': "\<not> pending w" by (simp add: isPending_def)
  show ev: "newEvents w (state_of (matchSelection notify m w)) =
        [BeginSelectionUpdate, SiblingSelect (siblingModel m) (selectedRows (model m w))]
          @ (if raised (matchSelection notify m w) then [] else [EndSelectionUpdate])"
    by (rule newEvents_append) (use matchSelection_run(1) [OF np'] in simp)
  show "siblingSelects (newEvents w (state_of (matchSelection notify m w))) = 1"
    unfolding ev by simp
  show "maxInFlight 0 (newEvents w (state_of (matchSelection notify m w))) = 1"
    unfolding ev by simp
  show "isPending (state_of (matchSelection notify m w)) = raised (matchSelection notify m w)"
    using matchSelection_run(2) [OF np'] by (simp add: isPending_def)
next
  assume "\<not> isPending w \<and> list_all isinstance_int (selectedRows (model m w)) \<and>
    selectedRows (model m w) \<noteq> []"
  then show "\<not> raised (matchSelection notify m w)"
    using matchSelection_sibling_rows [of w m notify] by (simp add: isPending_def)
qed


text \<open>
  The chain on a concrete window, with every selection change signalled: the influence
  list pushes row 1 to the weight list, whose handler caches it and calls
  \<open>matchSelection\<close> in turn, to no effect.
\<close>

theorem matchSelection_guarded_witness:
  "matchSelection (\<lambda>old new. True) WeightFilterModel (beginSelectionUpdate syncWindow)
     = Done (beginSelectionUpdate syncWindow) \<and>
   newEvents syncWindow
     (state_of (matchSelection (\<lambda>old new. True) InfluenceFilterModel syncWindow))
     = [BeginSelectionUpdate, SiblingSelect WeightFilterModel [PyInt 1], EndSelectionUpdate] \<and>
   siblingSelects (newEvents syncWindow
     (state_of (matchSelection (\<lambda>old new. True) InfluenceFilterModel syncWindow))) = 1 \<and>
   maxInFlight 0 (newEvents syncWindow
     (state_of (matchSelection (\<lambda>old new. True) InfluenceFilterModel syncWindow))) = 1 \<and>
   selectedRows (weightFilterModel
     (state_of (matchSelection (\<lambda>old new. True) InfluenceFilterModel syncWindow))) = [PyInt 1]"
proof -
  have a: "isPending (beginSelectionUpdate syncWindow)"
    by (simp add: isPending_def)
  have b: "\<not> isPending syncWindow" "list_all isinstance_int (selectedRows (model InfluenceFilterModel syncWindow))"
    "selectedRows (model InfluenceFilterModel syncWindow) = [PyInt 1]"
    by (simp_all add: isPending_def syncWindow_def newWindow_def)
  show ?thesis
    using matchSelection_guarded [of "beginSelectionUpdate syncWindow" "\<lambda>old new. True" WeightFilterModel]
      matchSelection_guarded [of syncWindow "\<lambda>old new. True" InfluenceFilterModel] a b
    by (simp add: syncWindow_chain)
qed

lemma matchSelection_model: "model m (state_of (matchSelection notify m w)) = model m w"
  by (cases "pending w") (simp_all add: matchSelection_pending matchSelection_run(3))

lemma onSelectionChanged_view:
  "viewLog (model m (state_of (onSelectionChanged notify m w))) = viewLog (model m w)"
  "viewSelection (model m (state_of (onSelectionChanged notify m w))) = viewSelection (model m w)"
proof -
  let ?rows = "getSelectedRows (model m w)"
  let ?w1 = "setModel m (invalidateFilter (setSelectedRows (model m w) ?rows)) w"
  let ?r = "if autoSelect (model m ?w1) then matchSelection notify m ?w1 else Done ?w1"
  have eq: "onSelectionChanged notify m w =
      (if length ?rows = 0 then Done w
       else case ?r of Raised e w2 \<Rightarrow> Raised e w2 | Done w2 \<Rightarrow> requestInfluenceChange w2)"
    by (simp add: onSelectionChanged.simps [of notify m w] Let_def)
  have r: "model m (state_of ?r) = model m ?w1"
    by (simp add: matchSelection_model)
  have fin: "model m (state_of (case ?r of Raised e w2 \<Rightarrow> Raised e w2
                                  | Done w2 \<Rightarrow> requestInfluenceChange w2)) = model m ?w1"
    using r by (cases ?r) simp_all
  have v: "viewLog (model m ?w1) = viewLog (model m w)"
    "viewSelection (model m ?w1) = viewSelection (model m w)"
    by (simp_all add: invalidateFilter_frame setSelectedRows_def)
  show "viewLog (model m (state_of (onSelectionChanged notify m w))) = viewLog (model m w)"
    unfolding eq using fin v by (cases "length ?rows = 0") simp_all
  show "viewSelection (model m (state_of (onSelectionChanged notify m w)))
          = viewSelection (model m w)"
    unfolding eq using fin v by (cases "length ?rows = 0") simp_all
qed

lemma select_view:
  "viewLog (model m (select notify m rows w)) = viewLog (model m w) @ [Select rows]"
  "viewSelection (model m (select notify m rows w)) = mapSelectionFromSource (model m w) rows"
  by (simp_all add: select.simps [of notify m rows w] Let_def onSelectionChanged_view)

text \<open>
  Claim C7. \<open>selectInfluences\<close> with no rows does nothing at all when
  \<open>activeInfluences\<close> is empty: it returns normally and the whole state, selection and
  view included, is as before. When \<open>activeInfluences\<close> starts with row \<open>r\<close>, the call
  returns normally, the view has received a selection of \<open>r\<close> followed by
  \<open>scrollToTop\<close>, and \<open>r\<close> is the view's selection.
\<close>

theorem selectInfluences_empty_rows:
  "(activeInfluences (model m w) = [] \<longrightarrow> selectInfluences notify m [] w = Done w) \<and>
   (activeInfluences (model m w) = PyInt r # others \<longrightarrow>
      (\<exists>w'. selectInfluences notify m [] w = Done w' \<and>
            viewLog (model m w') = viewLog (model m w) @ [Select [r], ScrollToTop] \<and>
            viewSelection (model m w') = [r]))"
proof -
  from selectInfluences_unfold [of "[]" m w notify]
  have eq: "selectInfluences notify m [] w =
      (case activeInfluences (model m w) of
         active # others \<Rightarrow>
           (case int_value active of
              None \<Rightarrow> Raised TypeError w
            | Some r \<Rightarrow> Done (viewCommand m ScrollToTop (select notify m [r] w)))
       | [] \<Rightarrow> Done w)"
    by (auto split: list.splits option.splits)
  show ?thesis
    unfolding eq
    by (simp add: select_view mapSelectionFromSource_def py_in_def)
qed

text \<open>
  On a window without active influences nothing happens; in the weight list of the
  synchronised window, whose only active influence is row 0, row 0 is selected.
\<close>

theorem selectInfluences_empty_rows_witness:
  "selectInfluences (\<lambda>old new. True) InfluenceFilterModel [] newWindow = Done newWindow \<and>
   viewLog (weightFilterModel
      (state_of (selectInfluences (\<lambda>old new. True) WeightFilterModel [] syncWindow)))
     = [Select [0], ScrollToTop] \<and>
   viewSelection (weightFilterModel
      (state_of (selectInfluences (\<lambda>old new. True) WeightFilterModel [] syncWindow))) = [0]"
proof -
  have a: "activeInfluences (model InfluenceFilterModel newWindow) = []"
    by (simp add: newWindow_def newModel_def)
  have b: "activeInfluences (model WeightFilterModel syncWindow) = PyInt 0 # []"
    "viewLog (model WeightFilterModel syncWindow) = []"
    by (simp_all add: syncWindow_def newWindow_def newModel_def)
  from selectInfluences_empty_rows [of InfluenceFilterModel newWindow "\<lambda>old new. True"] a
  have "selectInfluences (\<lambda>old new. True) InfluenceFilterModel [] newWindow = Done newWindow"
    by simp
  moreover
  from selectInfluences_empty_rows [of WeightFilterModel syncWindow "\<lambda>old new. True" 0 "[]"] b
  have "viewLog (weightFilterModel
      (state_of (selectInfluences (\<lambda>old new. True) WeightFilterModel [] syncWindow)))
     = [Select [0], ScrollToTop] \<and>
   viewSelection (weightFilterModel
      (state_of (selectInfluences (\<lambda>old new. True) WeightFilterModel [] syncWindow))) = [0]"
    by auto
  ultimately show ?thesis by simp
qed

lemma sourceInfluences_pending:
  "sourceInfluences w = Inr (srcs, w1) \<Longrightarrow> pending w1 = pending w"
  by (auto simp: sourceInfluences_def Let_def split: if_splits sum.splits)

lemma invalidateWeights_pending: "pending (state_of (invalidateWeights w)) = pending w"
  by (simp add: invalidateWeights_def validate_def Let_def
      split: list.splits option.splits sum.splits)

lemma batchEdit_pending: "pending (state_of (batchEdit f amount w)) = pending w"
  by (auto simp: batchEdit_def invalidateWeights_pending dest: sourceInfluences_pending
      split: sum.splits prod.splits)

lemma runBatch_pending: "pending (state_of (runBatch op w)) = pending w"
  by (simp add: runBatch_batchEdit validate_def batchEdit_pending)

lemma apiCall_pending: "pending w \<Longrightarrow> pending (apiCall notify c w)"
proof (cases c)
  case (SetAutoSelect m v)
  then show "pending w \<Longrightarrow> pending (apiCall notify c w)"
    by (cases v) (simp_all add: setAutoSelect_def Let_def matchSelection_pending)
qed (simp_all add: storeModel_def setSelectedRows_def matchSelection_pending
      selectInfluences_pending onSelectionChanged_pending select_pending runBatch_pending
      invalidateWeights_pending split: sum.splits)

lemma apiCalls_pending: "pending w \<Longrightarrow> pending (fold (apiCall notify) calls w)"
  by (induction calls arbitrary: w) (simp_all add: apiCall_pending)

text \<open>
  Claim C9. When the cached selection of the initiating model holds a value that is not
  an integer, the sibling's \<open>selectInfluences\<close> raises \<open>TypeError\<close> at its check;
  \<open>matchSelection\<close> passes the exception on after \<open>beginSelectionUpdate\<close> and before
  \<open>endSelectionUpdate\<close>, so the flag stays set. From a state with the flag set, no
  sequence of calls on the window clears it, and \<open>matchSelection\<close> on either model
  returns without doing anything.
\<close>

theorem failed_sync_keeps_flag:
  "(\<not> isPending w \<and> \<not> list_all isinstance_int (selectedRows (model m w)) \<longrightarrow>
      matchSelection notify m w =
        Raised TypeError
          (logSiblingSelect (siblingModel m) (selectedRows (model m w))
             (beginSelectionUpdate w)) \<and>
      isPending (state_of (matchSelection notify m w))) \<and>
   (isPending w \<longrightarrow>
      isPending (fold (apiCall notify) calls w) \<and>
      matchSelection notify m' (fold (apiCall notify) calls w)
        = Done (fold (apiCall notify) calls w))"
proof (intro conjI impI)
  assume h: "\<not> isPending w \<and> \<not> list_all isinstance_int (selectedRows (model m w))"
  then show eq: "matchSelection notify m w =
        Raised TypeError
          (logSiblingSelect (siblingModel m) (selectedRows (model m w))
             (beginSelectionUpdate w))"
    by (simp add: matchSelection.simps [of notify m w] selectInfluences_invalid)
  show "isPending (state_of (matchSelection notify m w))"
    unfolding eq by (simp add: isPending_def)
next
  assume "isPending w"
  then have p: "pending (fold (apiCall notify) calls w)"
    by (simp add: isPending_def apiCalls_pending)
  then show "isPending (fold (apiCall notify) calls w)"
    by (simp add: isPending_def)
  from p show "matchSelection notify m' (fold (apiCall notify) calls w)
        = Done (fold (apiCall notify) calls w)"
    by (rule matchSelection_pending)
qed

text \<open>
  A string in the influence list's cache: the synchronisation raises with the flag set,
  and after the cache is repaired and the user selects a row, \<open>matchSelection\<close> is still
  without effect.
\<close>

theorem failed_sync_keeps_flag_witness:
  "matchSelection (\<lambda>old new. True) InfluenceFilterModel brokenWindow =
     Raised TypeError
       (logSiblingSelect WeightFilterModel [PyStr ''joint1''] (beginSelectionUpdate brokenWindow)) \<and>
   isPending (state_of (matchSelection (\<lambda>old new. True) InfluenceFilterModel brokenWindow)) \<and>
   matchSelection (\<lambda>old new. True) WeightFilterModel
     (fold (apiCall (\<lambda>old new. True))
        [SetSelectedRows InfluenceFilterModel [PyInt 1], UserSelects WeightFilterModel [0],
         MatchSelection InfluenceFilterModel]
        (state_of (matchSelection (\<lambda>old new. True) InfluenceFilterModel brokenWindow)))
     = Done (fold (apiCall (\<lambda>old new. True))
        [SetSelectedRows InfluenceFilterModel [PyInt 1], UserSelects WeightFilterModel [0],
         MatchSelection InfluenceFilterModel]
        (state_of (matchSelection (\<lambda>old new. True) InfluenceFilterModel brokenWindow)))"
proof -
  have a: "\<not> isPending brokenWindow"
    "selectedRows (model InfluenceFilterModel brokenWindow) = [PyStr ''joint1'']"
    by (simp_all add: isPending_def brokenWindow_def syncWindow_def newWindow_def
        setSelectedRows_def)
  from failed_sync_keeps_flag [of brokenWindow InfluenceFilterModel "\<lambda>old new. True"] a
  have b: "matchSelection (\<lambda>old new. True) InfluenceFilterModel brokenWindow =
     Raised TypeError
       (logSiblingSelect WeightFilterModel [PyStr ''joint1''] (beginSelectionUpdate brokenWindow))"
    "isPending (state_of (matchSelection (\<lambda>old new. True) InfluenceFilterModel brokenWindow))"
    by (simp_all add: isPending_def)
  from failed_sync_keeps_flag
    [of "state_of (matchSelection (\<lambda>old new. True) InfluenceFilterModel brokenWindow)"
        _ "\<lambda>old new. True"
        "[SetSelectedRows InfluenceFilterModel [PyInt 1], UserSelects WeightFilterModel [0],
          MatchSelection InfluenceFilterModel]" WeightFilterModel] b(2)
  have "matchSelection (\<lambda>old new. True) WeightFilterModel
     (fold (apiCall (\<lambda>old new. True))
        [SetSelectedRows InfluenceFilterModel [PyInt 1], UserSelects WeightFilterModel [0],
         MatchSelection InfluenceFilterModel]
        (state_of (matchSelection (\<lambda>old new. True) InfluenceFilterModel brokenWindow)))
     = Done (fold (apiCall (\<lambda>old new. True))
        [SetSelectedRows InfluenceFilterModel [PyInt 1], UserSelects WeightFilterModel [0],
         MatchSelection InfluenceFilterModel]
        (state_of (matchSelection (\<lambda>old new. True) InfluenceFilterModel brokenWindow)))"
    by blast
  with b show ?thesis by blast
qed

section \<open>Pattern matching\<close>









lemma spec_bracket: "spec_match ''L_Arm'' ''[LR]_Arm'' = False"
  by simp




end
